(* ===== verification/Fips180.thy ===== *)
theory Fips180
  imports Prelude
begin

text \<open>
  SHA-256 as FIPS 180-4 defines it, on a whole message: the reference for the code of
  hbf/shell/hash.c and hbf/db/overlay_fs.c. Nothing of the model of the code is used here.
  The constants are not copied from a table: the standard says that they are the first
  thirty-two bits of the fractional parts of the cube roots of the first sixty-four primes,
  and of the square roots of the first eight, and they are computed from that. Rotations are
  the library's \<open>word_rotr\<close>, big-endian words its \<open>word_rcat\<close>.
\<close>

section \<open>Integer roots\<close>

text \<open>The greatest number below \<open>2 ^ Suc b + r\<close> whose \<open>k\<close>-th power is at most \<open>n\<close>, bit by bit.\<close>

primrec root_bits :: "nat \<Rightarrow> nat \<Rightarrow> nat \<Rightarrow> nat \<Rightarrow> nat" where
  "root_bits k n 0 r = (if (r + 1) ^ k \<le> n then r + 1 else r)"
| "root_bits k n (Suc b) r = root_bits k n b (if (r + 2 ^ Suc b) ^ k \<le> n then r + 2 ^ Suc b else r)"

definition floor_root :: "nat \<Rightarrow> nat \<Rightarrow> nat" where
  "floor_root k n = root_bits k n 39 0"

lemma root_bits_spec:
  "r ^ k \<le> n \<Longrightarrow> n < (r + 2 ^ Suc b) ^ k \<Longrightarrow> root_bits k n b r ^ k \<le> n \<and> n < Suc (root_bits k n b r) ^ k"
proof (induction b arbitrary: r)
  case 0
  then show ?case by (simp add: numeral_2_eq_2)
next
  case (Suc b)
  let ?r = "if (r + 2 ^ Suc b) ^ k \<le> n then r + 2 ^ Suc b else r"
  have "?r ^ k \<le> n" using Suc.prems by simp
  moreover have "n < (?r + 2 ^ Suc b) ^ k"
    using Suc.prems by (simp add: add.assoc not_le split: if_splits)
  ultimately have "root_bits k n b ?r ^ k \<le> n \<and> n < Suc (root_bits k n b ?r) ^ k" by (rule Suc.IH)
  then show ?case by simp
qed

lemma floor_root_unique:
  assumes "r ^ k \<le> n" "n < Suc r ^ k" "0 < k" "r < 2 ^ 40"
  shows "floor_root k n = r"
proof -
  let ?q = "floor_root k n"
  have "Suc r ^ k \<le> (2 ^ 40) ^ k" using assms(4) by (intro power_mono) simp_all
  then have "n < (0 + 2 ^ Suc 39) ^ k" using assms(2) by simp
  moreover have "0 ^ k \<le> n" using assms(3) by (simp add: power_0_left)
  ultimately have q: "?q ^ k \<le> n \<and> n < Suc ?q ^ k" unfolding floor_root_def by (intro root_bits_spec)
  have "r ^ k < Suc ?q ^ k" "?q ^ k < Suc r ^ k" using assms(1,2) q by auto
  then have "r < Suc ?q" "?q < Suc r" by (auto dest: power_less_imp_less_base)
  then show ?thesis by simp
qed

section \<open>The constants\<close>

text \<open>The primes below 312: a number below \<open>18\<^sup>2\<close> is prime if it has no proper divisor up to 17.\<close>

definition small_primes :: "nat list" where
  "small_primes = filter (\<lambda>p. list_all (\<lambda>d. d = p \<or> p mod d \<noteq> 0) [2..<18]) [2..<312]"

text \<open>The first 32 bits of the fractional part of the \<open>k\<close>-th root of \<open>p\<close>.\<close>

definition fips_frac :: "nat \<Rightarrow> nat \<Rightarrow> u32" where
  "fips_frac k p = word_of_nat (floor_root k (p * 2 ^ (32 * k)))"

definition fips_K :: "u32 list" where
  "fips_K = map (fips_frac 3) small_primes"

definition fips_H0 :: "u32 list" where
  "fips_H0 = map (fips_frac 2) (take 8 small_primes)"

text \<open>The values, by the whole part and the fraction of each root.\<close>

definition root_is :: "nat \<Rightarrow> nat \<Rightarrow> nat \<times> nat \<Rightarrow> bool" where
  "root_is k p r \<longleftrightarrow> (fst r * 2 ^ 32 + snd r) ^ k \<le> p * 2 ^ (32 * k) \<and>
     p * 2 ^ (32 * k) < (fst r * 2 ^ 32 + snd r + 1) ^ k \<and> fst r < 256 \<and> snd r < 2 ^ 32"

lemma fips_frac_root:
  assumes "root_is k p r" "0 < k"
  shows "fips_frac k p = word_of_nat (snd r)"
proof -
  let ?r = "fst r * 2 ^ 32 + snd r"
  have "floor_root k (p * 2 ^ (32 * k)) = ?r"
    using assms by (intro floor_root_unique) (auto simp: root_is_def)
  moreover have "(word_of_nat ?r :: u32) = word_of_nat (snd r)"
  proof -
    have "(2 :: u32) ^ 32 = 0" by simp
    then show ?thesis by (simp only: of_nat_add of_nat_mult of_nat_power of_nat_numeral mult_zero_right add_0)
  qed
  ultimately show ?thesis by (simp add: fips_frac_def)
qed

lemma fips_fracs:
  "list_all2 (root_is k) ps rs \<Longrightarrow> 0 < k \<Longrightarrow> map (fips_frac k) ps = map (\<lambda>r. word_of_nat (snd r)) rs"
  by (induction rule: list_all2_induct) (simp_all add: fips_frac_root)

lemma small_primes_eq:
  "small_primes =
     [2, 3, 5, 7, 11, 13, 17, 19, 23, 29, 31, 37, 41, 43, 47, 53,
      59, 61, 67, 71, 73, 79, 83, 89, 97, 101, 103, 107, 109, 113, 127, 131,
      137, 139, 149, 151, 157, 163, 167, 173, 179, 181, 191, 193, 197, 199, 211, 223,
      227, 229, 233, 239, 241, 251, 257, 263, 269, 271, 277, 281, 283, 293, 307, 311]"
  by (simp add: small_primes_def upt_rec)

lemma fips_K_eq:
  "fips_K = map (\<lambda>r :: nat \<times> nat. word_of_nat (snd r))
     [(1, 0x428a2f98), (1, 0x71374491), (1, 0xb5c0fbcf), (1, 0xe9b5dba5),
      (2, 0x3956c25b), (2, 0x59f111f1), (2, 0x923f82a4), (2, 0xab1c5ed5),
      (2, 0xd807aa98), (3, 0x12835b01), (3, 0x243185be), (3, 0x550c7dc3),
      (3, 0x72be5d74), (3, 0x80deb1fe), (3, 0x9bdc06a7), (3, 0xc19bf174),
      (3, 0xe49b69c1), (3, 0xefbe4786), (4, 0x0fc19dc6), (4, 0x240ca1cc),
      (4, 0x2de92c6f), (4, 0x4a7484aa), (4, 0x5cb0a9dc), (4, 0x76f988da),
      (4, 0x983e5152), (4, 0xa831c66d), (4, 0xb00327c8), (4, 0xbf597fc7),
      (4, 0xc6e00bf3), (4, 0xd5a79147), (5, 0x06ca6351), (5, 0x14292967),
      (5, 0x27b70a85), (5, 0x2e1b2138), (5, 0x4d2c6dfc), (5, 0x53380d13),
      (5, 0x650a7354), (5, 0x766a0abb), (5, 0x81c2c92e), (5, 0x92722c85),
      (5, 0xa2bfe8a1), (5, 0xa81a664b), (5, 0xc24b8b70), (5, 0xc76c51a3),
      (5, 0xd192e819), (5, 0xd6990624), (5, 0xf40e3585), (6, 0x106aa070),
      (6, 0x19a4c116), (6, 0x1e376c08), (6, 0x2748774c), (6, 0x34b0bcb5),
      (6, 0x391c0cb3), (6, 0x4ed8aa4a), (6, 0x5b9cca4f), (6, 0x682e6ff3),
      (6, 0x748f82ee), (6, 0x78a5636f), (6, 0x84c87814), (6, 0x8cc70208),
      (6, 0x90befffa), (6, 0xa4506ceb), (6, 0xbef9a3f7), (6, 0xc67178f2)]"
  unfolding fips_K_def small_primes_eq
  by (rule fips_fracs) (simp_all add: root_is_def)

lemma fips_H0_eq:
  "fips_H0 = map (\<lambda>r :: nat \<times> nat. word_of_nat (snd r))
     [(1, 0x6a09e667), (1, 0xbb67ae85), (2, 0x3c6ef372), (2, 0xa54ff53a),
      (3, 0x510e527f), (3, 0x9b05688c), (4, 0x1f83d9ab), (4, 0x5be0cd19)]"
proof -
  have "take 8 small_primes = [2, 3, 5, 7, 11, 13, 17, 19]" by (simp add: small_primes_eq)
  then show ?thesis unfolding fips_H0_def by (simp only:) (rule fips_fracs; simp add: root_is_def)
qed

section \<open>The hash\<close>

definition fips_sigma0 :: "u32 \<Rightarrow> u32" where
  "fips_sigma0 x = word_rotr 7 x XOR word_rotr 18 x XOR drop_bit 3 x"

definition fips_sigma1 :: "u32 \<Rightarrow> u32" where
  "fips_sigma1 x = word_rotr 17 x XOR word_rotr 19 x XOR drop_bit 10 x"

text \<open>The message schedule \<open>W\<^sub>t\<close> of a block, as a recurrence on \<open>t\<close>.\<close>

fun fips_w :: "bytes \<Rightarrow> nat \<Rightarrow> u32" where
  "fips_w blk t =
     (if t < 16 then word_rcat (take 4 (drop (4 * t) blk))
      else fips_sigma1 (fips_w blk (t - 2)) + fips_w blk (t - 7) +
           fips_sigma0 (fips_w blk (t - 15)) + fips_w blk (t - 16))"

declare fips_w.simps [simp del]

text \<open>The working variables \<open>a\<close> to \<open>h\<close> after \<open>t\<close> rounds.\<close>

type_synonym working = "u32 \<times> u32 \<times> u32 \<times> u32 \<times> u32 \<times> u32 \<times> u32 \<times> u32"

primrec fips_rounds :: "u32 list \<Rightarrow> bytes \<Rightarrow> nat \<Rightarrow> working" where
  "fips_rounds s blk 0 = (s ! 0, s ! 1, s ! 2, s ! 3, s ! 4, s ! 5, s ! 6, s ! 7)"
| "fips_rounds s blk (Suc t) =
     (case fips_rounds s blk t of (a, b, c, d, e, f, g, h) \<Rightarrow>
        let t1 = h + (word_rotr 6 e XOR word_rotr 11 e XOR word_rotr 25 e) +
                 ((e AND f) XOR (NOT e AND g)) + fips_K ! t + fips_w blk t;
            t2 = (word_rotr 2 a XOR word_rotr 13 a XOR word_rotr 22 a) +
                 ((a AND b) XOR (a AND c) XOR (b AND c))
        in (t1 + t2, a, b, c, d + t1, e, f, g))"

definition fips_compress :: "u32 list \<Rightarrow> bytes \<Rightarrow> u32 list" where
  "fips_compress s blk =
     (case fips_rounds s blk 64 of (a, b, c, d, e, f, g, h) \<Rightarrow> map2 (+) s [a, b, c, d, e, f, g, h])"

text \<open>The padded message, a multiple of 64 bytes, and its blocks.\<close>

definition fips_pad :: "bytes \<Rightarrow> bytes" where
  "fips_pad msg =
     msg @ 0x80 # replicate ((119 - length msg mod 64) mod 64) 0 @ be64 (of_nat (8 * length msg))"

fun blocks64 :: "bytes \<Rightarrow> bytes list" where
  "blocks64 [] = []"
| "blocks64 (x # xs) = take 64 (x # xs) # blocks64 (drop 64 (x # xs))"

definition fips_sha256 :: "bytes \<Rightarrow> bytes" where
  "fips_sha256 msg = concat (map be32 (foldl fips_compress fips_H0 (blocks64 (fips_pad msg))))"

end
