(* ===== verification/Sha256.thy ===== *)
theory Sha256
  imports Fips180
begin

text \<open>
  The SHA-256 code of hbf/shell/hash.c (lines 12-155). hbf/db/overlay_fs.c carries a
  second, textually identical copy of it (lines 97-240, with the constant table called
  \<open>sha256_k\<close> and the structure \<open>sha256_ctx_t\<close>); both callers, \<open>hbf_dns_safe_hash\<close> and
  \<open>compute_bundle_id\<close>, are modelled on these definitions.

  The first part translates the C: the macros, the constant table, the context structure,
  and \<open>sha256_init\<close>, \<open>sha256_transform\<close>, \<open>sha256_update\<close>, \<open>sha256_final\<close> over it. The
  context lives on the caller's stack and \<open>sha256_init\<close> does not write its \<open>data\<close> array,
  so the array starts with arbitrary contents.

  The second part proves that feeding a message through the buffering code gives exactly the
  hash that \<open>Fips180\<close> defines on the whole message, whatever the stack held; the tables of
  the code are shown to be the constants that the standard derives from the primes.
\<close>

section \<open>The code\<close>

definition ROTRIGHT :: "u32 \<Rightarrow> nat \<Rightarrow> u32" where
  "ROTRIGHT a b = drop_bit b a OR push_bit (32 - b) a"

definition CH :: "u32 \<Rightarrow> u32 \<Rightarrow> u32 \<Rightarrow> u32" where
  "CH x y z = (x AND y) XOR (NOT x AND z)"

definition MAJ :: "u32 \<Rightarrow> u32 \<Rightarrow> u32 \<Rightarrow> u32" where
  "MAJ x y z = (x AND y) XOR (x AND z) XOR (y AND z)"

definition EP0 :: "u32 \<Rightarrow> u32" where
  "EP0 x = ROTRIGHT x 2 XOR ROTRIGHT x 13 XOR ROTRIGHT x 22"

definition EP1 :: "u32 \<Rightarrow> u32" where
  "EP1 x = ROTRIGHT x 6 XOR ROTRIGHT x 11 XOR ROTRIGHT x 25"

definition SIG0 :: "u32 \<Rightarrow> u32" where
  "SIG0 x = ROTRIGHT x 7 XOR ROTRIGHT x 18 XOR drop_bit 3 x"

definition SIG1 :: "u32 \<Rightarrow> u32" where
  "SIG1 x = ROTRIGHT x 17 XOR ROTRIGHT x 19 XOR drop_bit 10 x"

text \<open>The table of round constants, written in decimal.\<close>

definition sha256_k :: "u32 list" where
  "sha256_k =
     [1116352408, 1899447441, 3049323471, 3921009573,
      961987163, 1508970993, 2453635748, 2870763221,
      3624381080, 310598401, 607225278, 1426881987,
      1925078388, 2162078206, 2614888103, 3248222580,
      3835390401, 4022224774, 264347078, 604807628,
      770255983, 1249150122, 1555081692, 1996064986,
      2554220882, 2821834349, 2952996808, 3210313671,
      3336571891, 3584528711, 113926993, 338241895,
      666307205, 773529912, 1294757372, 1396182291,
      1695183700, 1986661051, 2177026350, 2456956037,
      2730485921, 2820302411, 3259730800, 3345764771,
      3516065817, 3600352804, 4094571909, 275423344,
      430227734, 506948616, 659060556, 883997877,
      958139571, 1322822218, 1537002063, 1747873779,
      1955562222, 2024104815, 2227730452, 2361852424,
      2428436474, 2756734187, 3204031479, 3329325298]"

record sha256_ctx =
  ctx_data :: bytes
  ctx_datalen :: u32
  ctx_bitlen :: u64
  ctx_state :: "u32 list"

text \<open>The first loop of \<open>sha256_transform\<close>: sixteen big-endian words of the block.\<close>

definition load_word :: "bytes \<Rightarrow> nat \<Rightarrow> u32" where
  "load_word d j =
     push_bit 24 (ucast (d ! j)) OR push_bit 16 (ucast (d ! (j + 1))) OR
     push_bit 8 (ucast (d ! (j + 2))) OR ucast (d ! (j + 3))"

definition load_words :: "bytes \<Rightarrow> u32 list" where
  "load_words d = map (\<lambda>i. load_word d (4 * i)) [0..<16]"

text \<open>The second loop, for \<open>i\<close> from 16 to 63: \<open>m\<close> is the array filled up to \<open>i\<close>.\<close>

definition extend_m :: "u32 list \<Rightarrow> u32 list" where
  "extend_m m =
     (let i = length m
      in m @ [SIG1 (m ! (i - 2)) + m ! (i - 7) + SIG0 (m ! (i - 15)) + m ! (i - 16)])"

definition schedule :: "bytes \<Rightarrow> u32 list" where
  "schedule d = (extend_m ^^ 48) (load_words d)"

text \<open>The body of the round loop on the local variables \<open>a\<close> to \<open>h\<close>.\<close>

type_synonym regs = "u32 \<times> u32 \<times> u32 \<times> u32 \<times> u32 \<times> u32 \<times> u32 \<times> u32"

fun round_body :: "regs \<Rightarrow> u32 \<times> u32 \<Rightarrow> regs" where
  "round_body (a, b, c, d, e, f, g, h) (ki, mi) =
     (let t1 = h + EP1 e + CH e f g + ki + mi;
          t2 = EP0 a + MAJ a b c
      in (t1 + t2, a, b, c, d + t1, e, f, g))"

definition regs_of :: "u32 list \<Rightarrow> regs" where
  "regs_of s = (s ! 0, s ! 1, s ! 2, s ! 3, s ! 4, s ! 5, s ! 6, s ! 7)"

fun add_regs :: "u32 list \<Rightarrow> regs \<Rightarrow> u32 list" where
  "add_regs s (a, b, c, d, e, f, g, h) =
     [s ! 0 + a, s ! 1 + b, s ! 2 + c, s ! 3 + d, s ! 4 + e, s ! 5 + f, s ! 6 + g, s ! 7 + h]"

definition transform_state :: "u32 list \<Rightarrow> bytes \<Rightarrow> u32 list" where
  "transform_state s d = add_regs s (foldl round_body (regs_of s) (zip sha256_k (schedule d)))"

definition sha256_transform :: "sha256_ctx \<Rightarrow> bytes \<Rightarrow> sha256_ctx" where
  "sha256_transform c d = c\<lparr>ctx_state := transform_state (ctx_state c) d\<rparr>"

definition sha256_h0 :: "u32 list" where
  "sha256_h0 =
     [1779033703, 3144134277, 1013904242, 2773480762,
      1359893119, 2600822924, 528734635, 1541459225]"

definition sha256_init :: "sha256_ctx \<Rightarrow> sha256_ctx" where
  "sha256_init c = c\<lparr>ctx_datalen := 0, ctx_bitlen := 0, ctx_state := sha256_h0\<rparr>"

text \<open>One iteration of the loop of \<open>sha256_update\<close>, and the loop over the input.\<close>

definition sha256_update_byte :: "sha256_ctx \<Rightarrow> u8 \<Rightarrow> sha256_ctx" where
  "sha256_update_byte c b =
     (let c1 = c\<lparr>ctx_data := (ctx_data c)[unat (ctx_datalen c) := b],
                 ctx_datalen := ctx_datalen c + 1\<rparr>
      in if ctx_datalen c1 = 64
         then (let c2 = sha256_transform c1 (ctx_data c1)
               in c2\<lparr>ctx_bitlen := ctx_bitlen c2 + 512, ctx_datalen := 0\<rparr>)
         else c1)"

definition sha256_update :: "sha256_ctx \<Rightarrow> bytes \<Rightarrow> sha256_ctx" where
  "sha256_update c ds = foldl sha256_update_byte c ds"

text \<open>The zero-filling loops \<open>while (i < n) data[i++] = 0x00\<close>, and \<open>memset\<close> of a prefix.\<close>

definition zero_fill :: "nat \<Rightarrow> nat \<Rightarrow> bytes \<Rightarrow> bytes" where
  "zero_fill i n d = foldl (\<lambda>d j. d[j := 0]) d [i..<n]"

definition store_bitlen :: "u64 \<Rightarrow> bytes \<Rightarrow> bytes" where
  "store_bitlen w d =
     d[63 := ucast w, 62 := ucast (drop_bit 8 w), 61 := ucast (drop_bit 16 w),
       60 := ucast (drop_bit 24 w), 59 := ucast (drop_bit 32 w), 58 := ucast (drop_bit 40 w),
       57 := ucast (drop_bit 48 w), 56 := ucast (drop_bit 56 w)]"

definition sha256_final_pad :: "sha256_ctx \<Rightarrow> sha256_ctx" where
  "sha256_final_pad c =
     (let i = unat (ctx_datalen c)
      in if ctx_datalen c < 56
         then c\<lparr>ctx_data := zero_fill (i + 1) 56 ((ctx_data c)[i := 0x80])\<rparr>
         else (let c1 = c\<lparr>ctx_data := zero_fill (i + 1) 64 ((ctx_data c)[i := 0x80])\<rparr>;
                   c2 = sha256_transform c1 (ctx_data c1)
               in c2\<lparr>ctx_data := zero_fill 0 56 (ctx_data c2)\<rparr>))"

text \<open>
  The output loop writes byte \<open>i\<close> of state word \<open>j\<close> to \<open>hash[i + 4 * j]\<close>, most
  significant byte first.
\<close>

definition hash_bytes :: "u32 list \<Rightarrow> bytes" where
  "hash_bytes s =
     map (\<lambda>n. ucast (drop_bit (24 - (n mod 4) * 8) (s ! (n div 4)) AND 0x000000ff)) [0..<32]"

definition sha256_final :: "sha256_ctx \<Rightarrow> bytes" where
  "sha256_final c =
     (let c1 = sha256_final_pad c;
          bl = ctx_bitlen c1 + ucast (ctx_datalen c1) * 8;
          c2 = c1\<lparr>ctx_bitlen := bl, ctx_data := store_bitlen bl (ctx_data c1)\<rparr>;
          c3 = sha256_transform c2 (ctx_data c2)
      in hash_bytes (ctx_state c3))"

text \<open>The calling sequence of both users, on a context whose contents \<open>c\<close> are arbitrary.\<close>

definition sha256_digest :: "sha256_ctx \<Rightarrow> bytes \<Rightarrow> bytes" where
  "sha256_digest c msg = sha256_final (sha256_update (sha256_init c) msg)"

section \<open>Rotations and big-endian loads\<close>

lemma bit_word_rcat:
  "bit (word_rcat ws :: 'b::len word) n \<longleftrightarrow>
     n < LENGTH('b) \<and> n div LENGTH('a) < length ws \<and> bit (rev ws ! (n div LENGTH('a))) (n mod LENGTH('a))"
  for ws :: "'a::len word list"
  unfolding word_rcat_def o_def bit_word_of_int_iff bit_horner_sum_uint_exp_iff length_rev by simp

lemma load_word_rcat:
  assumes "j + 4 \<le> length d"
  shows "load_word d j = word_rcat (take 4 (drop j d))"
proof (rule bit_word_eqI)
  have four: "take 4 (drop j d) = [d ! j, d ! (j+1), d ! (j+2), d ! (j+3)]"
    using assms by (simp add: numeral_eq_Suc take_Suc_conv_app_nth Cons_nth_drop_Suc [symmetric])
  fix n assume "n < LENGTH(32)"
  then have n: "n < 32" by simp
  then consider "n < 8" | "8 \<le> n" "n < 16" | "16 \<le> n" "n < 24" | "24 \<le> n" by linarith
  then show "bit (load_word d j) n \<longleftrightarrow> bit (word_rcat (take 4 (drop j d)) :: u32) n"
  proof cases
    case 1
    with n show ?thesis
      unfolding four bit_word_rcat
      by (simp add: load_word_def bit_or_iff bit_push_bit_iff bit_ucast_iff)
  next
    case 2
    then have "n div 8 = 1" "n mod 8 = n - 8" by (simp_all add: div_nat_eqI mod_if)
    with 2 n show ?thesis
      unfolding four bit_word_rcat
      by (auto simp: load_word_def bit_or_iff bit_push_bit_iff bit_ucast_iff dest: bit_imp_le_length)
  next
    case 3
    then have "n div 8 = 2" "n mod 8 = n - 16" by (simp_all add: div_nat_eqI mod_if)
    with 3 n show ?thesis
      unfolding four bit_word_rcat
      by (auto simp: load_word_def bit_or_iff bit_push_bit_iff bit_ucast_iff dest: bit_imp_le_length)
  next
    case 4
    then have "n div 8 = 3" "n mod 8 = n - 24" using n by (simp_all add: div_nat_eqI mod_if)
    with 4 n show ?thesis
      unfolding four bit_word_rcat
      by (auto simp: load_word_def bit_or_iff bit_push_bit_iff bit_ucast_iff dest: bit_imp_le_length)
  qed
qed

lemma ROTRIGHT_rotr:
  assumes "0 < n" "n < 32"
  shows "ROTRIGHT x n = word_rotr n x"
proof (rule bit_word_eqI)
  fix i assume "i < LENGTH(32)"
  then have i: "i < 32" by simp
  show "bit (ROTRIGHT x n) i \<longleftrightarrow> bit (word_rotr n x) i"
  proof (cases "i + n < 32")
    case True
    with assms i show ?thesis
      by (auto simp: ROTRIGHT_def bit_word_rotr_iff bit_or_iff bit_push_bit_iff bit_drop_bit_eq
          add.commute)
  next
    case False
    then have "\<not> bit x (n + i)" using bit_imp_le_length [of x "n + i"] by auto
    moreover have "(i + n) mod 32 = i + n - 32"
      using False i assms by (simp add: mod_if)
    ultimately show ?thesis using assms i False
      by (auto simp: ROTRIGHT_def bit_word_rotr_iff bit_or_iff bit_push_bit_iff bit_drop_bit_eq
          add.commute)
  qed
qed

section \<open>The block function\<close>

text \<open>The tables of the code are the constants of the standard.\<close>

lemma sha256_k_fips: "sha256_k = fips_K"
  by (simp add: sha256_k_def fips_K_eq)

lemma sha256_h0_fips: "sha256_h0 = fips_H0"
  by (simp add: sha256_h0_def fips_H0_eq)

lemma length_fips_H0 [simp]: "length fips_H0 = 8"
  by (simp add: fips_H0_eq)

lemma length_fips_compress [simp]: "length s = 8 \<Longrightarrow> length (fips_compress s d) = 8"
  by (simp add: fips_compress_def split: prod.splits)

lemma length_fips_state [simp]: "length s = 8 \<Longrightarrow> length (foldl fips_compress s bs) = 8"
  by (induction bs arbitrary: s) simp_all

lemma SIG0_fips: "SIG0 x = fips_sigma0 x"
  by (simp add: SIG0_def fips_sigma0_def ROTRIGHT_rotr)

lemma SIG1_fips: "SIG1 x = fips_sigma1 x"
  by (simp add: SIG1_def fips_sigma1_def ROTRIGHT_rotr)

lemma length_extend_m [simp]: "length (extend_m m) = Suc (length m)"
  by (simp add: extend_m_def Let_def)

lemma length_extend_iter: "length ((extend_m ^^ n) m) = length m + n"
  by (induction n) simp_all

lemma length_schedule [simp]: "length (schedule d) = 64"
  by (simp add: schedule_def length_extend_iter load_words_def)

lemma length_sha256_k [simp]: "length sha256_k = 64"
  by (simp add: sha256_k_def)

lemma fips_w_base: "t < 16 \<Longrightarrow> fips_w d t = word_rcat (take 4 (drop (4 * t) d))"
  by (subst fips_w.simps) simp

lemma fips_w_step:
  "16 \<le> t \<Longrightarrow> fips_w d t = fips_sigma1 (fips_w d (t - 2)) + fips_w d (t - 7) +
     fips_sigma0 (fips_w d (t - 15)) + fips_w d (t - 16)"
  by (subst fips_w.simps) simp

lemma schedule_prefix:
  assumes "length d = 64"
  shows "(extend_m ^^ n) (load_words d) = map (fips_w d) [0..<16 + n]"
proof (induction n)
  case 0
  show ?case using assms
    by (auto simp: load_words_def fips_w_base load_word_rcat)
next
  case (Suc n)
  let ?m = "map (fips_w d) [0..<16 + n]"
  have "(extend_m ^^ Suc n) (load_words d) = extend_m ?m" using Suc by simp
  also have "\<dots> = ?m @ [fips_w d (16 + n)]"
    by (simp add: extend_m_def Let_def SIG0_fips SIG1_fips fips_w_step [of "16 + n"])
  also have "\<dots> = map (fips_w d) [0..<16 + Suc n]"
    by (simp only: add_Suc_right upt_Suc_snoc map_append list.map le0)
  finally show ?case .
qed

lemma schedule_fips: "length d = 64 \<Longrightarrow> schedule d = map (fips_w d) [0..<64]"
  using schedule_prefix [of d 48] by (simp add: schedule_def)

lemma rounds_fips:
  assumes "length d = 64" "n \<le> 64"
  shows "foldl round_body (regs_of s) (take n (zip sha256_k (schedule d))) = fips_rounds s d n"
  using assms(2)
proof (induction n)
  case 0
  show ?case by (simp add: regs_of_def)
next
  case (Suc n)
  then have n: "n < 64" by simp
  obtain a b c e f g h i where r: "fips_rounds s d n = (a, b, c, e, f, g, h, i)"
    by (cases "fips_rounds s d n") auto
  have "take (Suc n) (zip sha256_k (schedule d)) =
      take n (zip sha256_k (schedule d)) @ [(sha256_k ! n, fips_w d n)]"
    using n assms(1) by (simp add: take_Suc_conv_app_nth schedule_fips)
  then show ?case using Suc n r
    by (simp add: EP0_def EP1_def CH_def MAJ_def ROTRIGHT_rotr Let_def sha256_k_fips)
qed

lemma add_regs_sum:
  assumes "length s = 8"
  shows "add_regs s (a, b, c, d, e, f, g, h) = map2 (+) s [a, b, c, d, e, f, g, h]"
proof -
  obtain s0 s1 s2 s3 s4 s5 s6 s7 where "s = [s0, s1, s2, s3, s4, s5, s6, s7]"
    using assms by (auto simp: length_Suc_conv eval_nat_numeral)
  then show ?thesis by simp
qed

lemma transform_state_fips: "length d = 64 \<Longrightarrow> length s = 8 \<Longrightarrow> transform_state s d = fips_compress s d"
  using rounds_fips [of d 64 s]
  by (simp add: transform_state_def fips_compress_def add_regs_sum del: add_regs.simps split: prod.splits)

lemma length_add_regs [simp]: "length (add_regs s r) = 8"
  by (cases "(s, r)" rule: add_regs.cases) simp

lemma length_transform_state [simp]: "length (transform_state s d) = 8"
  by (simp add: transform_state_def)

section \<open>Buffering\<close>

lemma blocks64_unfold: "xs \<noteq> [] \<Longrightarrow> blocks64 xs = take 64 xs # blocks64 (drop 64 xs)"
  by (cases xs) auto

lemma blocks64_append: "length xs = 64 * n \<Longrightarrow> blocks64 (xs @ ys) = blocks64 xs @ blocks64 ys"
proof (induction n arbitrary: xs)
  case 0
  then show ?case by simp
next
  case (Suc n)
  then have len: "64 \<le> length xs" and "length (drop 64 xs) = 64 * n" by simp_all
  then have IH: "blocks64 (drop 64 xs @ ys) = blocks64 (drop 64 xs) @ blocks64 ys"
    by (intro Suc.IH) simp
  from len have "xs \<noteq> []" by auto
  with len IH show ?case
    by (simp add: blocks64_unfold [of "xs @ ys"] blocks64_unfold [of xs])
qed

lemma blocks64_single: "length xs = 64 \<Longrightarrow> blocks64 xs = [xs]"
  by (cases xs) auto

lemma zero_fill_eq:
  "i \<le> n \<Longrightarrow> n \<le> length d \<Longrightarrow> zero_fill i n d = take i d @ replicate (n - i) 0 @ drop n d"
proof (induction n)
  case 0
  then show ?case by (simp add: zero_fill_def)
next
  case (Suc n)
  show ?case
  proof (cases "i = Suc n")
    case True
    then show ?thesis by (simp add: zero_fill_def)
  next
    case False
    with Suc.prems have i: "i \<le> n" and n: "n < length d" by simp_all
    then have "zero_fill i (Suc n) d = (zero_fill i n d)[n := 0]"
      by (simp add: zero_fill_def)
    also have "\<dots> = (take i d @ replicate (n - i) 0 @ drop n d)[n := 0]"
      using Suc.IH i n by simp
    also have "\<dots> = take i d @ replicate (Suc n - i) 0 @ drop (Suc n) d"
      using i n by (simp add: list_update_append Cons_nth_drop_Suc [symmetric] Suc_diff_le
          replicate_append_same [symmetric])
    finally show ?thesis .
  qed
qed

lemma store_bitlen_eq: "length d = 64 \<Longrightarrow> store_bitlen w d = take 56 d @ be64 w"
proof (rule nth_equalityI)
  assume len: "length d = 64"
  then show "length (store_bitlen w d) = length (take 56 d @ be64 w)"
    by (simp add: store_bitlen_def)
  fix i assume "i < length (store_bitlen w d)"
  with len have "i < 64" by (simp add: store_bitlen_def)
  then consider "i < 56" | "i \<in> {56, 57, 58, 59, 60, 61, 62, 63}" by force
  then show "store_bitlen w d ! i = (take 56 d @ be64 w) ! i"
  proof cases
    case 1
    with len show ?thesis by (simp add: store_bitlen_def nth_append)
  next
    case 2
    with len show ?thesis
      by (auto simp: store_bitlen_def nth_append be64_def)
  qed
qed

text \<open>What the context holds after the bytes \<open>msg\<close> have been fed to it.\<close>

definition absorbed :: "sha256_ctx \<Rightarrow> bytes \<Rightarrow> bool" where
  "absorbed c msg \<longleftrightarrow>
     length (ctx_data c) = 64 \<and>
     ctx_datalen c = of_nat (length msg mod 64) \<and>
     ctx_bitlen c = of_nat (512 * (length msg div 64)) \<and>
     take (length msg mod 64) (ctx_data c) = drop (64 * (length msg div 64)) msg \<and>
     ctx_state c = foldl fips_compress fips_H0 (blocks64 (take (64 * (length msg div 64)) msg))"

lemma absorbed_init: "length (ctx_data c) = 64 \<Longrightarrow> absorbed (sha256_init c) []"
  by (simp add: absorbed_def sha256_init_def sha256_h0_fips)

lemma datalen_unat: "unat (of_nat (n mod 64) :: u32) = n mod 64"
proof -
  have "n mod 64 < 64" by simp
  then have "n mod 64 < 2 ^ 32" by (rule less_trans) simp
  then show ?thesis by (simp add: unat_of_nat)
qed

lemma datalen_64_iff: "n < 64 \<Longrightarrow> (of_nat n + 1 = (64 :: u32)) \<longleftrightarrow> Suc n = 64"
proof -
  assume "n < 64"
  then have "unat (of_nat n + 1 :: u32) = Suc n"
    by (simp add: unat_word_ariths unat_of_nat)
  then show ?thesis by (simp add: word_unat_eq_iff)
qed

lemma absorbed_byte:
  assumes "absorbed c msg"
  shows "absorbed (sha256_update_byte c b) (msg @ [b])"
proof -
  define q r where "q = length msg div 64" and "r = length msg mod 64"
  have r64: "r < 64" and lm: "length msg = 64 * q + r" by (simp_all add: q_def r_def)
  from assms have c: "length (ctx_data c) = 64" "ctx_datalen c = of_nat r"
      "ctx_bitlen c = of_nat (512 * q)" "take r (ctx_data c) = drop (64 * q) msg"
      "ctx_state c = foldl fips_compress fips_H0 (blocks64 (take (64 * q) msg))"
    by (simp_all add: absorbed_def q_def r_def)
  have c8: "length (ctx_state c) = 8" using c(5) by simp
  let ?d = "(ctx_data c)[r := b]"
  have u: "unat (ctx_datalen c) = r" using c(2) datalen_unat [of "length msg"] by (simp add: r_def)
  have d: "take (Suc r) ?d = drop (64 * q) (msg @ [b])"
    using c(1,4) r64 lm by (simp add: take_list_update_same)
  show ?thesis
  proof (cases "Suc r = 64")
    case False
    then have "length (msg @ [b]) div 64 = q" "length (msg @ [b]) mod 64 = Suc r"
      using lm r64 by (simp_all add: div_nat_eqI mod_Suc)
    moreover have "sha256_update_byte c b = c\<lparr>ctx_data := ?d, ctx_datalen := ctx_datalen c + 1\<rparr>"
      using False r64 c(2) u by (simp add: sha256_update_byte_def datalen_64_iff)
    ultimately show ?thesis using c d lm
      by (simp add: absorbed_def add.commute)
  next
    case True
    then have q': "length (msg @ [b]) div 64 = Suc q" "length (msg @ [b]) mod 64 = 0"
      using lm by simp_all
    have d': "?d = drop (64 * q) (msg @ [b])" using d True c(1) by simp
    have "blocks64 (msg @ [b]) = blocks64 (take (64 * q) msg) @ [?d]"
    proof -
      have "msg @ [b] = take (64 * q) msg @ ?d"
        using d' lm by (metis append_take_drop_id append_assoc drop_append diff_is_0_eq' drop_0 le_add1)
      moreover have "length (take (64 * q) msg) = 64 * q" using lm by simp
      moreover have "length ?d = 64" using c(1) by simp
      ultimately show ?thesis by (simp add: blocks64_append blocks64_single)
    qed
    moreover have "take (64 * Suc q) (msg @ [b]) = msg @ [b]" using lm True by simp
    moreover have "sha256_update_byte c b =
        c\<lparr>ctx_data := ?d, ctx_state := fips_compress (ctx_state c) ?d,
          ctx_bitlen := ctx_bitlen c + 512, ctx_datalen := 0\<rparr>"
      using True r64 c(1,2) u c8
      by (simp add: sha256_update_byte_def datalen_64_iff sha256_transform_def
          transform_state_fips Let_def)
    ultimately show ?thesis using c q' lm True
      by (simp add: absorbed_def)
  qed
qed

lemma absorbed_update: "absorbed c msg \<Longrightarrow> absorbed (sha256_update c ds) (msg @ ds)"
proof (induction ds arbitrary: c msg)
  case Nil
  then show ?case by (simp add: sha256_update_def)
next
  case (Cons d ds)
  then have "absorbed (sha256_update (sha256_update_byte c d) ds) ((msg @ [d]) @ ds)"
    by (intro Cons.IH absorbed_byte)
  then show ?case by (simp add: sha256_update_def)
qed

lemma hash_bytes_be32: "length s = 8 \<Longrightarrow> hash_bytes s = concat (map be32 s)"
proof -
  assume "length s = 8"
  then obtain a b c d e f g h where s: "s = [a, b, c, d, e, f, g, h]"
    by (auto simp: length_Suc_conv eval_nat_numeral)
  have mask8: "(0x000000ff :: u32) = mask 8" by (simp add: mask_eq_exp_minus_1)
  have mask: "ucast (w AND 0x000000ff) = (ucast w :: u8)" for w :: u32
  proof (rule bit_word_eqI)
    fix n assume "n < LENGTH(8)"
    then show "bit (ucast (w AND 0x000000ff) :: u8) n \<longleftrightarrow> bit (ucast w :: u8) n"
      unfolding mask8 by (auto simp: bit_ucast_iff bit_and_iff bit_mask_iff)
  qed
  show ?thesis
    by (simp add: s hash_bytes_def be32_def le32_def upt_rec mask)
qed


text \<open>The blocks of the padded message, by the number of bytes left in the buffer.\<close>

lemma pad_blocks:
  assumes "length msg = 64 * q + r" "r < 64"
  shows "blocks64 (fips_pad msg) = blocks64 (take (64 * q) msg) @
     blocks64 (drop (64 * q) msg @ 0x80 # replicate ((119 - r) mod 64) 0 @
               be64 (of_nat (8 * length msg)))"
proof -
  have r: "length msg mod 64 = r" using assms by simp
  have "fips_pad msg = take (64 * q) msg @ (drop (64 * q) msg @ 0x80 #
      replicate ((119 - r) mod 64) 0 @ be64 (of_nat (8 * length msg)))"
    unfolding fips_pad_def r append.assoc [symmetric] append_take_drop_id by simp
  moreover have "length (take (64 * q) msg) = 64 * q" using assms by simp
  ultimately show ?thesis by (simp add: blocks64_append)
qed

lemma bitlen_total:
  "of_nat (512 * q) + ucast (of_nat r :: u32) * 8 = (of_nat (8 * (64 * q + r)) :: u64)" if "r < 64"
proof -
  have "ucast (of_nat r :: u32) = (of_nat r :: u64)"
    using that by (simp add: word_unat_eq_iff unat_of_nat unsigned_ucast_eq unsigned_of_nat
        take_bit_nat_eq_self)
  then show ?thesis by (simp add: algebra_simps)
qed

theorem sha256_final_absorbed:
  assumes "absorbed c msg"
  shows "sha256_final c = fips_sha256 msg"
proof -
  define q r where "q = length msg div 64" and "r = length msg mod 64"
  have r64: "r < 64" and lm: "length msg = 64 * q + r" by (simp_all add: q_def r_def)
  from assms have c: "length (ctx_data c) = 64" "ctx_datalen c = of_nat r"
      "ctx_bitlen c = of_nat (512 * q)" "take r (ctx_data c) = drop (64 * q) msg"
      "ctx_state c = foldl fips_compress fips_H0 (blocks64 (take (64 * q) msg))"
    by (simp_all add: absorbed_def q_def r_def)
  have u: "unat (ctx_datalen c) = r" using c(2) datalen_unat [of "length msg"] by (simp add: r_def)
  have less56: "ctx_datalen c < 56 \<longleftrightarrow> r < 56" using u by (simp add: word_less_nat_alt)
  define bl :: u64 where "bl = of_nat (8 * length msg)"
  have bl: "ctx_bitlen c + ucast (ctx_datalen c) * 8 = bl"
    using bitlen_total [OF r64, of q] c(2,3) lm by (simp add: bl_def)
  let ?B = "drop (64 * q) msg"
  have lB: "length ?B = r" using lm by simp
  have len8: "length (transform_state s d) = 8" for s d by simp
  show ?thesis
  proof (cases "r < 56")
    case True
    define blk where "blk = ?B @ 0x80 # replicate (55 - r) 0 @ be64 bl"
    have lblk: "length blk = 64" using True lB by (simp add: blk_def)
    have "(119 - r) mod 64 = 55 - r" using True by (simp add: mod_if)
    then have blocks: "blocks64 (fips_pad msg) = blocks64 (take (64 * q) msg) @ [blk]"
      using pad_blocks [OF lm r64] lblk by (simp add: blk_def bl_def blocks64_single)
    have "zero_fill (r + 1) 56 ((ctx_data c)[r := 0x80]) =
        ?B @ 0x80 # replicate (55 - r) 0 @ drop 56 (ctx_data c)"
      using True c(1,4) by (simp add: zero_fill_eq take_list_update_same)
    then have "store_bitlen bl (zero_fill (r + 1) 56 ((ctx_data c)[r := 0x80])) = blk"
      using True c(1) lB Suc_diff_le [of r 55] by (simp add: store_bitlen_eq blk_def)
    then have "sha256_final c = hash_bytes (transform_state (ctx_state c) blk)"
      using True less56 bl u
      by (simp add: sha256_final_def sha256_final_pad_def sha256_transform_def Let_def)
    then show ?thesis
      using c(5) lblk len8 [of "ctx_state c" blk]
      by (simp add: hash_bytes_be32 fips_sha256_def blocks transform_state_fips)
  next
    case False
    define blk1 where "blk1 = ?B @ 0x80 # replicate (63 - r) 0"
    define blk2 where "blk2 = replicate 56 0 @ be64 bl"
    have lblk: "length blk1 = 64" "length blk2 = 64" using r64 lB by (simp_all add: blk1_def blk2_def)
    have k: "(119 - r) mod 64 = (63 - r) + 56" using False r64 by (simp add: mod_if)
    have "?B @ 0x80 # replicate ((119 - r) mod 64) 0 @ be64 bl = blk1 @ blk2"
      unfolding k replicate_add blk1_def blk2_def by simp
    then have blocks: "blocks64 (fips_pad msg) = blocks64 (take (64 * q) msg) @ [blk1, blk2]"
      using pad_blocks [OF lm r64] lblk blocks64_append [of blk1 1 blk2]
      by (simp add: bl_def blocks64_single)
    have b1: "zero_fill (r + 1) 64 ((ctx_data c)[r := 0x80]) = blk1"
      using r64 c(1,4) by (simp add: zero_fill_eq take_list_update_same blk1_def)
    have b2: "store_bitlen bl (zero_fill 0 56 blk1) = blk2"
      using lblk(1) by (simp add: zero_fill_eq store_bitlen_eq blk2_def)
    have "sha256_final c = hash_bytes (transform_state (transform_state (ctx_state c) blk1) blk2)"
      using False less56 bl u b1 b2
      by (simp add: sha256_final_def sha256_final_pad_def sha256_transform_def Let_def)
    then show ?thesis
      using c(5) lblk len8 [of "transform_state (ctx_state c) blk1" blk2]
      by (simp add: hash_bytes_be32 fips_sha256_def blocks transform_state_fips)
  qed
qed

lemma sha256_digest_context:
  assumes "length (ctx_data c) = 64" "length (ctx_data c') = 64"
  shows "sha256_digest c msg = sha256_digest c' msg"
proof -
  have "sha256_digest c msg = fips_sha256 msg" if "length (ctx_data c) = 64" for c
  proof -
    have "absorbed (sha256_update (sha256_init c) msg) ([] @ msg)"
      using that by (intro absorbed_update absorbed_init)
    then show ?thesis by (simp add: sha256_digest_def sha256_final_absorbed)
  qed
  then show ?thesis using assms by simp
qed

text \<open>C11. Streaming SHA-256 is FIPS 180-4 SHA-256: initialising the context, feeding the message
  byte by byte through the 64-byte buffer and finalising yields the digest the standard defines
  on the padded message, for every message and whatever the stack-allocated buffer held before.
  The digest is that of \<open>Fips180\<close>, with constants computed from the primes.\<close>

theorem sha256_digest_is_fips:
  assumes "length (ctx_data c) = 64"
  shows "sha256_digest c msg = fips_sha256 msg"
proof -
  have "absorbed (sha256_update (sha256_init c) msg) ([] @ msg)"
    using assms by (intro absorbed_update absorbed_init)
  then show ?thesis by (simp add: sha256_digest_def sha256_final_absorbed)
qed

theorem sha256_digest_is_fips_witness:
  "length (replicate 64 (0xA5 :: u8)) = 64 \<and>
   sha256_digest \<lparr>ctx_data = replicate 64 0xA5, ctx_datalen = 7, ctx_bitlen = 9, ctx_state = []\<rparr>
     [97, 98, 99] = fips_sha256 [97, 98, 99]"
  by (simp add: sha256_digest_is_fips)

lemma length_concat_be32 [byte_simps]: "length (concat (map be32 ws)) = 4 * length ws"
  by (induction ws) simp_all

lemma length_fips_sha256 [simp]: "length (fips_sha256 msg) = 32"
  by (simp add: fips_sha256_def length_concat_be32)

end
