(* ===== verification/Dns_Hash.thy ===== *)
theory Dns_Hash
  imports Sha256
begin

text \<open>
  hbf/shell/hash.c, \<open>hbf_dns_safe_hash\<close>: the first eight bytes of the SHA-256 digest of a
  user name, as a 64-bit number, printed in base 36 into a nine-byte buffer. Pointers that
  may be NULL are options; the caller's buffer and the stack context hold arbitrary bytes.
\<close>

section \<open>The code\<close>

text \<open>\<open>num = (num << 8) | hash[i]\<close> over the first eight bytes of the digest.\<close>

definition num_of_hash :: "bytes \<Rightarrow> u64" where
  "num_of_hash hash = foldl (\<lambda>num i. push_bit 8 num OR ucast (hash ! i)) 0 [0..<8]"

definition base36 :: string where
  "base36 = ''0123456789abcdefghijklmnopqrstuvwxyz''"

text \<open>The descending loop: \<open>base36_loop n\<close> runs it for \<open>i = n - 1, \<dots>, 0\<close>.\<close>

primrec base36_loop :: "nat \<Rightarrow> u64 \<Rightarrow> string \<Rightarrow> string" where
  "base36_loop 0 num out = out"
| "base36_loop (Suc i) num out =
     base36_loop i (num div 36) (out[i := base36 ! unat (num mod 36)])"

definition hbf_dns_safe_hash ::
    "sha256_ctx \<Rightarrow> string option \<Rightarrow> string option \<Rightarrow> int \<times> string option" where
  "hbf_dns_safe_hash ctx input output =
     (case (input, output) of
        (Some s, Some out) \<Rightarrow>
          let hash = sha256_digest ctx (map byte_of_char (c_string s));
              out1 = base36_loop 8 (num_of_hash hash) out
          in (0, Some (out1[8 := CHR 0x00]))
      | _ \<Rightarrow> (-1, output))"

section \<open>The number\<close>

lemma shift_in_byte:
  assumes "unat n < 2 ^ 56"
  shows "unat (push_bit 8 n OR ucast b :: u64) = unat n * 256 + unat (b :: u8)"
proof -
  have "push_bit 8 n AND ucast b = (0 :: u64)"
    by (rule bit_word_eqI) (auto simp: bit_and_iff bit_push_bit_iff bit_ucast_iff dest: bit_imp_le_length)
  then have "push_bit 8 n OR ucast b = push_bit 8 n + (ucast b :: u64)"
    by (simp add: disjunctive_add_eq_or)
  moreover have "unat (push_bit 8 n :: u64) = unat n * 256"
    using assms by (simp add: push_bit_eq_mult unat_word_ariths)
  moreover have "unat (ucast b :: u64) = unat b"
    by (rule unat_ucast_byte)
  moreover have "unat n * 256 + unat b < 18446744073709551616"
    using assms unat_byte_less [of b] by (simp del: unat_byte_less)
  ultimately show ?thesis by (simp add: unat_word_ariths)
qed

lemma undigits_bound: "\<forall>d \<in> set ds. d < b \<Longrightarrow> 0 < b \<Longrightarrow> undigits b ds < b ^ length ds"
proof (induction ds rule: rev_induct)
  case Nil
  then show ?case by simp
next
  case (snoc d ds)
  then have "undigits b ds < b ^ length ds" "d < b" by simp_all
  then have "undigits b ds * b + d < (undigits b ds + 1) * b" by simp
  also have "\<dots> \<le> b ^ length ds * b"
    using \<open>undigits b ds < b ^ length ds\<close> by (intro mult_le_mono1) simp
  finally show ?case by (simp add: mult.commute)
qed

lemma num_of_hash_prefix:
  "n \<le> 8 \<Longrightarrow> unat (foldl (\<lambda>num i. push_bit 8 num OR ucast (hash ! i)) 0 [0..<n] :: u64) =
     undigits 256 (map (\<lambda>i. unat ((hash :: bytes) ! i)) [0..<n])"
proof (induction n)
  case 0
  then show ?case by simp
next
  case (Suc n)
  let ?ds = "map (\<lambda>i. unat (hash ! i)) [0..<n]"
  have "undigits 256 ?ds < 256 ^ length ?ds" by (intro undigits_bound) auto
  also have "256 ^ length ?ds \<le> (256 :: nat) ^ 7"
    using Suc.prems by (intro power_increasing) simp_all
  also have "\<dots> = 2 ^ 56" by simp
  finally have "undigits 256 ?ds < 2 ^ 56" .
  with Suc show ?case by (simp add: shift_in_byte)
qed

lemma unat_num_of_hash: "unat (num_of_hash hash) = undigits 256 (map (\<lambda>i. unat (hash ! i)) [0..<8])"
  unfolding num_of_hash_def by (rule num_of_hash_prefix) simp

section \<open>The digits\<close>

lemma base36_digit: "base36 ! d = digit_char d"
  by (simp add: base36_def digit_char_def)

lemma length_base36_loop [simp]: "length (base36_loop n num out) = length out"
  by (induction n arbitrary: num out) simp_all

lemma drop_base36_loop: "n \<le> m \<Longrightarrow> drop m (base36_loop n num out) = drop m out"
  by (induction n arbitrary: num out) simp_all

lemma base36_loop_digits:
  assumes "n \<le> length out"
  shows "\<exists>ds. take n (base36_loop n num out) = map digit_char ds \<and> length ds = n \<and>
     (\<forall>d \<in> set ds. d < 36) \<and> undigits 36 ds = unat num mod 36 ^ n"
  using assms
proof (induction n arbitrary: num out)
  case 0
  then show ?case by simp
next
  case (Suc n)
  let ?out = "out[n := base36 ! unat (num mod 36)]"
  obtain ds where ds: "take n (base36_loop n (num div 36) ?out) = map digit_char ds" "length ds = n"
      "\<forall>d \<in> set ds. d < 36" "undigits 36 ds = unat (num div 36) mod 36 ^ n"
    using Suc.IH [of ?out "num div 36"] Suc.prems by auto
  let ?d = "unat num mod 36"
  have last: "base36_loop n (num div 36) ?out ! n = digit_char ?d"
  proof -
    have "base36_loop n (num div 36) ?out ! n = drop n (base36_loop n (num div 36) ?out) ! 0"
      using Suc.prems by simp
    also have "\<dots> = ?out ! n" using Suc.prems by (simp add: drop_base36_loop)
    finally show ?thesis using Suc.prems by (simp add: base36_digit unat_mod_distrib)
  qed
  have "take (Suc n) (base36_loop (Suc n) num out) = map digit_char (ds @ [?d])"
    using ds(1) last Suc.prems by (simp add: take_Suc_conv_app_nth)
  moreover have "undigits 36 (ds @ [?d]) = unat num mod 36 ^ Suc n"
    using ds(4) by (simp add: unat_div_distrib mod_mult2_eq mult.commute)
  moreover have "\<forall>d \<in> set (ds @ [?d]). d < 36" using ds(3) by simp
  ultimately show ?case using ds(2)
    by (intro exI [of _ "ds @ [?d]"]) simp
qed

lemma length_sha256_digest [simp]: "length (sha256_digest c msg) = 32"
  by (simp add: sha256_digest_def sha256_final_def hash_bytes_def Let_def)

lemma first_eight: "8 \<le> length xs \<Longrightarrow> map (\<lambda>i. f (xs ! i)) [0..<8] = map f (take 8 xs)"
  by (rule nth_equalityI) simp_all

lemma digit_char_not_NUL: "d < 36 \<Longrightarrow> digit_char d \<noteq> CHR 0x00"
  using digit_value_digit_char [of d] by (auto simp: digit_value_def)

text \<open>C36. The DNS-safe hash of a name is eight characters of \<open>[0-9a-z]\<close>, NUL-terminated inside the
  caller's nine bytes (nothing beyond them is written), and read back in base 36 they are the
  first eight bytes of the digest as a big-endian number, reduced modulo \<open>36\<^sup>8\<close>.\<close>

theorem dns_safe_hash_digits:
  assumes "9 \<le> length out"
  shows "\<exists>out' ds. hbf_dns_safe_hash ctx (Some name) (Some out) = (0, Some out') \<and>
     c_string out' = map digit_char ds \<and> length ds = 8 \<and> set ds \<subseteq> {..<36} \<and>
     undigits 36 ds =
       undigits 256 (map unat (take 8 (sha256_digest ctx (map byte_of_char (c_string name))))) mod 36 ^ 8 \<and>
     drop 9 out' = drop 9 out"
proof -
  define hash where "hash = sha256_digest ctx (map byte_of_char (c_string name))"
  define raw where "raw = base36_loop 8 (num_of_hash hash) out"
  obtain ds where ds: "take 8 raw = map digit_char ds" "length ds = 8" "\<forall>d \<in> set ds. d < 36"
      "undigits 36 ds = unat (num_of_hash hash) mod 36 ^ 8"
    using base36_loop_digits [of 8 out "num_of_hash hash"] assms by (auto simp: raw_def)
  have len: "length raw = length out" by (simp add: raw_def)
  have "raw[8 := CHR 0x00] = take 8 raw @ CHR 0x00 # drop 9 raw"
    using assms len by (simp add: upd_conv_take_nth_drop)
  then have "raw[8 := CHR 0x00] = map digit_char ds @ CHR 0x00 # drop 9 raw"
    using ds(1) by simp
  moreover have "c_string (map digit_char ds @ CHR 0x00 # drop 9 raw) = map digit_char ds"
    using ds(3) digit_char_not_NUL
    by (auto simp: c_string_def takeWhile_append takeWhile_eq_all_conv)
  moreover have "drop 9 raw = drop 9 out" by (simp add: raw_def drop_base36_loop)
  ultimately show ?thesis using ds len assms
    by (intro exI [of _ "raw[8 := CHR 0x00]"] exI [of _ ds])
      (auto simp: hbf_dns_safe_hash_def raw_def hash_def Let_def unat_num_of_hash first_eight)
qed

theorem dns_safe_hash_digits_witness:
  "9 \<le> length (replicate 12 (CHR ''?'')) \<and>
   (\<exists>out' ds. hbf_dns_safe_hash \<lparr>ctx_data = [], ctx_datalen = 0, ctx_bitlen = 0, ctx_state = []\<rparr>
      (Some ''testuser'') (Some (replicate 12 (CHR ''?''))) = (0, Some out') \<and>
      c_string out' = map digit_char ds \<and> length ds = 8)"
  using dns_safe_hash_digits [of "replicate 12 (CHR ''?'')"
      "\<lparr>ctx_data = [], ctx_datalen = 0, ctx_bitlen = 0, ctx_state = []\<rparr>" "''testuser''"]
  by auto

end
