(* ===== verification/Sqlite_Db.thy ===== *)
theory Sqlite_Db
  imports Prelude "HOL-Library.State_Monad"
begin

text \<open>
  The database as the C code uses it. The tables, views and the trigger are those of
  hbf/db/overlay_schema.sql; each SQL statement that occurs in the C sources is one function
  on the tables. SQLite itself is not under src/: whether a call of its interface succeeds
  is decided by the environment, a parameter of every operation. \<open>fault_at E n\<close> is the outcome
  of the \<open>n\<close>-th fallible call (of SQLite or of \<open>malloc\<close>) made by the process, so a theorem
  for all environments covers every I/O error, lock timeout and failed allocation.
  \<open>Tx_Fault\<close> is an error on which SQLite rolls the open transaction back by itself.

  A connection carries the tables it sees, the tables at \<open>BEGIN\<close> while a transaction is
  open (what a crash, a rollback or another connection would see), the value of
  \<open>sqlite3_last_insert_rowid\<close>, the number of calls made so far and the number of handles
  opened and not yet closed, which only \<open>sqlite3_open\<close> and \<open>sqlite3_close\<close> change.
\<close>

section \<open>Tables\<close>

record version_row =
  v_file_id :: int
  v_path :: string
  v_number :: int
  v_mtime :: int
  v_size :: int
  v_data :: bytes

record meta_row =
  m_file_id :: int
  m_path :: string
  m_number :: int
  m_mtime :: int
  m_size :: int

record migration_row =
  g_bundle_id :: string
  g_applied_at :: int
  g_entries :: int

text \<open>\<open>t_tables\<close> and \<open>t_views\<close> are the names in \<open>sqlite_master\<close>; \<open>t_trigger\<close> says that
  \<open>trg_file_versions_ai\<close> exists; \<open>file_ids_seq\<close> is the AUTOINCREMENT counter.\<close>

record tables =
  t_tables :: "string list"
  t_views :: "string list"
  t_trigger :: bool
  file_ids :: "(int \<times> string) list"
  file_ids_seq :: int
  file_versions :: "version_row list"
  latest_files_meta :: "meta_row list"
  migrations :: "migration_row list"

definition empty_tables :: tables where
  "empty_tables = \<lparr>t_tables = [], t_views = [], t_trigger = False, file_ids = [],
     file_ids_seq = 0, file_versions = [], latest_files_meta = [], migrations = []\<rparr>"

definition meta_of :: "version_row \<Rightarrow> meta_row" where
  "meta_of v = \<lparr>m_file_id = v_file_id v, m_path = v_path v, m_number = v_number v,
     m_mtime = v_mtime v, m_size = v_size v\<rparr>"

section \<open>The statements of the schema and of the C code\<close>

text \<open>The view \<open>latest_files\<close>: rows whose version is the maximum of their \<open>file_id\<close>.\<close>

definition latest_files :: "tables \<Rightarrow> version_row list" where
  "latest_files t =
     filter (\<lambda>v. v_number v = Max (v_number ` {w \<in> set (file_versions t). v_file_id w = v_file_id v}))
       (file_versions t)"

definition latest_files_metadata :: "tables \<Rightarrow> meta_row list" where
  "latest_files_metadata t = map meta_of (latest_files t)"

text \<open>The upsert of the trigger \<open>trg_file_versions_ai\<close>.\<close>

definition upsert_meta :: "meta_row \<Rightarrow> meta_row list \<Rightarrow> meta_row list" where
  "upsert_meta m ms =
     (if list_ex (\<lambda>x. m_file_id x = m_file_id m) ms
      then map (\<lambda>x. if m_file_id x = m_file_id m \<and> m_number x \<le> m_number m then m else x) ms
      else ms @ [m])"

text \<open>\<open>SELECT file_id FROM file_ids WHERE path = ?\<close>\<close>

definition select_file_id :: "string \<Rightarrow> tables \<Rightarrow> int option" where
  "select_file_id path t = map_option fst (find (\<lambda>(i, p). p = path) (file_ids t))"

text \<open>\<open>INSERT INTO file_ids (path) VALUES (?)\<close>, with the UNIQUE constraint on the path and
  the AUTOINCREMENT key, whose exhaustion is an error.\<close>

definition insert_file_id :: "string \<Rightarrow> tables \<Rightarrow> tables option" where
  "insert_file_id path t =
     (if path \<in> snd ` set (file_ids t) \<or> 2 ^ 63 - 1 \<le> file_ids_seq t then None
      else Some (t\<lparr>file_ids := file_ids t @ [(file_ids_seq t + 1, path)],
                   file_ids_seq := file_ids_seq t + 1\<rparr>))"

text \<open>\<open>SELECT MAX(version_number) FROM file_versions WHERE file_id = ?\<close>: one row, NULL
  when there is no version.\<close>

definition select_max_version :: "int \<Rightarrow> tables \<Rightarrow> int option" where
  "select_max_version fid t =
     (let ns = map v_number (filter (\<lambda>v. v_file_id v = fid) (file_versions t))
      in if ns = [] then None else Some (Max (set ns)))"

text \<open>\<open>INSERT INTO file_versions (file_id, path, version_number, mtime, size, data) VALUES
  (?, ?, ?, ?, ?, ?)\<close>: the primary key is \<open>(file_id, version_number)\<close>, \<open>data\<close> is NOT NULL
  (\<open>None\<close> is SQL NULL), and the trigger runs after the row is in.\<close>

definition insert_file_version ::
    "int \<Rightarrow> string \<Rightarrow> int \<Rightarrow> int \<Rightarrow> int \<Rightarrow> bytes option \<Rightarrow> tables \<Rightarrow> tables option" where
  "insert_file_version fid path n mtime sz data t =
     (case data of
        None \<Rightarrow> None
      | Some d \<Rightarrow>
          if list_ex (\<lambda>v. v_file_id v = fid \<and> v_number v = n) (file_versions t) then None
          else
            let v = \<lparr>v_file_id = fid, v_path = path, v_number = n, v_mtime = mtime,
                     v_size = sz, v_data = d\<rparr>
            in Some (t\<lparr>file_versions := file_versions t @ [v],
                       latest_files_meta :=
                         (if t_trigger t then upsert_meta (meta_of v) (latest_files_meta t)
                          else latest_files_meta t)\<rparr>))"

text \<open>The query of \<open>overlay_fs_read\<close>: the versions of the path's \<open>file_id\<close>, \<open>ORDER BY
  fv.version_number DESC LIMIT 1\<close>.\<close>

definition select_latest_by_id :: "string \<Rightarrow> tables \<Rightarrow> bytes option" where
  "select_latest_by_id path t =
     (let fi = map fst (filter (\<lambda>(i, p). p = path) (file_ids t));
          rows = filter (\<lambda>v. v_file_id v \<in> set fi) (file_versions t)
      in case sort_key (\<lambda>v. - v_number v) rows of [] \<Rightarrow> None | v # _ \<Rightarrow> Some (v_data v))"

text \<open>\<open>SELECT data FROM latest_files WHERE path = ?\<close>, of which the callers take the first row.\<close>

definition select_latest_by_view :: "string \<Rightarrow> tables \<Rightarrow> bytes option" where
  "select_latest_by_view path t = map_option v_data (find (\<lambda>v. v_path v = path) (latest_files t))"

text \<open>\<open>SELECT COUNT(*) FROM file_versions fv JOIN file_ids fi ON fv.file_id = fi.file_id
  WHERE fi.path = ?\<close>\<close>

definition select_version_count :: "string \<Rightarrow> tables \<Rightarrow> int" where
  "select_version_count path t =
     int (length (filter (\<lambda>(v, i, p). v_file_id v = i \<and> p = path)
       (List.product (file_versions t) (file_ids t))))"

text \<open>\<open>SELECT 1 FROM migrations WHERE bundle_id = ? LIMIT 1\<close> and the \<open>INSERT INTO migrations\<close>,
  whose key \<open>bundle_id\<close> is a TEXT PRIMARY KEY.\<close>

definition select_migration :: "string \<Rightarrow> tables \<Rightarrow> bool" where
  "select_migration bid t = list_ex (\<lambda>g. g_bundle_id g = bid) (migrations t)"

definition insert_migration :: "string \<Rightarrow> int \<Rightarrow> int \<Rightarrow> tables \<Rightarrow> tables option" where
  "insert_migration bid applied n t =
     (if select_migration bid t then None
      else Some (t\<lparr>migrations := migrations t @
        [\<lparr>g_bundle_id = bid, g_applied_at = applied, g_entries = n\<rparr>]\<rparr>))"

section \<open>Connections and the environment\<close>

datatype fault = Fine | Stmt_Fault | Tx_Fault

text \<open>Besides the faults: \<open>time(NULL)\<close> at a call, SQLite's limit on the length of a value,
  what \<open>sqlite3_bind_blob\<close> makes of a negative length, which SQLite leaves undefined, and
  whether an \<open>sqlite3_open\<close> that fails as call \<open>n\<close> has nevertheless stored a handle.\<close>

record env =
  fault_at :: "nat \<Rightarrow> fault"
  clock :: "nat \<Rightarrow> int"
  max_len :: nat
  negative_blob :: "bytes \<Rightarrow> int \<Rightarrow> bytes option"
  open_error_handle :: "nat \<Rightarrow> bool"

record conn =
  tabs :: tables
  saved :: "tables option"
  last_rowid :: int
  tick :: nat
  open_count :: int

type_synonym 'a dbm = "(conn, 'a) state"

abbreviation ret :: "'a \<Rightarrow> ('s, 'a) state" where
  "ret \<equiv> State_Monad.return"

text \<open>The result of \<open>sqlite3_step\<close>.\<close>

datatype 'r step = Step_Row 'r | Step_Done | Step_Error

definition next_call :: "env \<Rightarrow> fault dbm" where
  "next_call E = State (\<lambda>s.
     let f = fault_at E (tick s); s1 = s\<lparr>tick := Suc (tick s)\<rparr>
     in (f, if f = Tx_Fault
            then (case saved s1 of None \<Rightarrow> s1 | Some t \<Rightarrow> s1\<lparr>tabs := t, saved := None\<rparr>)
            else s1))"

text \<open>\<open>malloc\<close>: a call that can fail and never touches the database.\<close>

definition c_malloc :: "env \<Rightarrow> bool dbm" where
  "c_malloc E = State (\<lambda>s. (fault_at E (tick s) = Fine, s\<lparr>tick := Suc (tick s)\<rparr>))"

text \<open>\<open>sqlite3_prepare_v2\<close> of a statement over the tables and views \<open>needs\<close>.\<close>

definition sq_prepare :: "env \<Rightarrow> string list \<Rightarrow> bool dbm" where
  "sq_prepare E needs = do {
     f \<leftarrow> next_call E;
     s \<leftarrow> State_Monad.get;
     ret
       (f = Fine \<and> set needs \<subseteq> set (t_tables (tabs s)) \<union> set (t_views (tabs s)))
   }"

definition sq_select :: "env \<Rightarrow> (tables \<Rightarrow> 'r option) \<Rightarrow> 'r step dbm" where
  "sq_select E q = do {
     f \<leftarrow> next_call E;
     s \<leftarrow> State_Monad.get;
     ret
       (if f \<noteq> Fine then Step_Error
        else case q (tabs s) of None \<Rightarrow> Step_Done | Some r \<Rightarrow> Step_Row r)
   }"

text \<open>A data-changing statement: SQLITE_DONE with the new tables and row id, or an error
  that leaves the tables as they were.\<close>

definition sq_change :: "env \<Rightarrow> (tables \<Rightarrow> tables option) \<Rightarrow> (tables \<Rightarrow> int \<Rightarrow> int) \<Rightarrow> bool dbm" where
  "sq_change E upd rowid = do {
     f \<leftarrow> next_call E;
     s \<leftarrow> State_Monad.get;
     (case (if f \<noteq> Fine then None else upd (tabs s)) of
        None \<Rightarrow> ret False
      | Some t \<Rightarrow> do {
          State_Monad.set (s\<lparr>tabs := t, last_rowid := rowid t (last_rowid s)\<rparr>);
          ret True
        })
   }"

text \<open>\<open>BEGIN IMMEDIATE\<close> fails inside a transaction, \<open>COMMIT\<close> and \<open>ROLLBACK\<close> fail outside
  one. A \<open>COMMIT\<close> or \<open>ROLLBACK\<close> that fails leaves the transaction open.\<close>

definition sq_begin :: "env \<Rightarrow> bool dbm" where
  "sq_begin E = do {
     f \<leftarrow> next_call E;
     s \<leftarrow> State_Monad.get;
     if f = Fine \<and> saved s = None
     then do { State_Monad.set (s\<lparr>saved := Some (tabs s)\<rparr>); ret True }
     else ret False
   }"

definition sq_commit :: "env \<Rightarrow> bool dbm" where
  "sq_commit E = do {
     f \<leftarrow> next_call E;
     s \<leftarrow> State_Monad.get;
     if f = Fine \<and> saved s \<noteq> None
     then do { State_Monad.set (s\<lparr>saved := None\<rparr>); ret True }
     else ret False
   }"

definition sq_rollback :: "env \<Rightarrow> bool dbm" where
  "sq_rollback E = do {
     f \<leftarrow> next_call E;
     s \<leftarrow> State_Monad.get;
     (case (if f = Fine then saved s else None) of
        None \<Rightarrow> ret False
      | Some t \<Rightarrow> do {
          State_Monad.set (s\<lparr>tabs := t, saved := None\<rparr>);
          ret True
        })
   }"

text \<open>\<open>sqlite3_column_int\<close> and the cast \<open>(int)\<close> keep the low 32 bits as a signed integer;
  a NULL column reads as 0.\<close>

definition column_int :: "int \<Rightarrow> int" where
  "column_int i = signed_take_bit 31 i"

definition column_int_null :: "int option \<Rightarrow> int" where
  "column_int_null r = (case r of None \<Rightarrow> 0 | Some i \<Rightarrow> column_int i)"

text \<open>The cast \<open>(sqlite3_int64)\<close> of a \<open>size_t\<close>.\<close>

definition column_int64 :: "int \<Rightarrow> int" where
  "column_int64 i = signed_take_bit 63 i"

text \<open>\<open>sqlite3_bind_blob(stmt, i, data, (int)size, SQLITE_STATIC)\<close>: the size is cast to a 32-bit
  \<open>int\<close> first, so a size of 2^31 or more binds fewer bytes than the buffer has, or becomes
  negative, for which SQLite promises nothing. A length over SQLite's limit is not bound and
  the parameter stays NULL.\<close>

definition bind_blob :: "env \<Rightarrow> bytes \<Rightarrow> nat \<Rightarrow> bytes option" where
  "bind_blob E data sz =
     (let n = column_int (int sz)
      in if n < 0 then negative_blob E data n
         else if nat n \<le> max_len E then Some (take (nat n) data)
         else None)"

section \<open>Running the primitives\<close>

text \<open>
  The call counter moves on at every call; apart from that a primitive changes the
  connection only in the way its description says, unless an open transaction is rolled
  back under it. \<open>calm\<close> excludes that: no transaction is open, or no \<open>Tx_Fault\<close> is ahead.
\<close>

definition bump :: "conn \<Rightarrow> conn" where
  "bump s = s\<lparr>tick := Suc (tick s)\<rparr>"

definition calm :: "env \<Rightarrow> conn \<Rightarrow> bool" where
  "calm E s \<longleftrightarrow> saved s = None \<or> (\<forall>n \<ge> tick s. fault_at E n \<noteq> Tx_Fault)"

definition available :: "string list \<Rightarrow> tables \<Rightarrow> bool" where
  "available needs t \<longleftrightarrow> set needs \<subseteq> set (t_tables t) \<union> set (t_views t)"

lemma bump_simps [simp]:
  "tabs (bump s) = tabs s" "saved (bump s) = saved s" "last_rowid (bump s) = last_rowid s"
  "tick (bump s) = Suc (tick s)" "open_count (bump s) = open_count s"
  by (simp_all add: bump_def)

lemma calm_bump [simp]: "calm E s \<Longrightarrow> calm E (bump s)"
  by (auto simp: calm_def)

lemma calm_update [simp]:
  "calm E (s\<lparr>tabs := t\<rparr>) = calm E s" "calm E (s\<lparr>last_rowid := r\<rparr>) = calm E s"
  by (simp_all add: calm_def)

lemma calm_no_tx: "saved s = None \<Longrightarrow> calm E s"
  by (simp add: calm_def)

lemma run_next_call: "calm E s \<Longrightarrow> run_state (next_call E) s = (fault_at E (tick s), bump s)"
  by (auto simp: next_call_def calm_def bump_def Let_def split: option.splits)

lemma run_malloc [simp]: "run_state (c_malloc E) s = (fault_at E (tick s) = Fine, bump s)"
  by (simp add: c_malloc_def bump_def)

lemma run_prepare [simp]:
  "calm E s \<Longrightarrow> run_state (sq_prepare E needs) s =
     (fault_at E (tick s) = Fine \<and> available needs (tabs s), bump s)"
  by (simp add: sq_prepare_def run_next_call available_def)

lemma run_select [simp]:
  "calm E s \<Longrightarrow> run_state (sq_select E q) s =
     (if fault_at E (tick s) \<noteq> Fine then Step_Error
      else case q (tabs s) of None \<Rightarrow> Step_Done | Some r \<Rightarrow> Step_Row r, bump s)"
  by (simp add: sq_select_def run_next_call)

lemma run_change [simp]:
  "calm E s \<Longrightarrow> run_state (sq_change E upd rowid) s =
     (case (if fault_at E (tick s) \<noteq> Fine then None else upd (tabs s)) of
        None \<Rightarrow> (False, bump s)
      | Some t \<Rightarrow> (True, (bump s)\<lparr>tabs := t, last_rowid := rowid t (last_rowid s)\<rparr>))"
  by (simp add: sq_change_def run_next_call split: option.splits)

lemma run_begin [simp]:
  "calm E s \<Longrightarrow> run_state (sq_begin E) s =
     (if fault_at E (tick s) = Fine \<and> saved s = None then (True, (bump s)\<lparr>saved := Some (tabs s)\<rparr>)
      else (False, bump s))"
  by (simp add: sq_begin_def run_next_call)

lemma run_commit [simp]:
  "calm E s \<Longrightarrow> run_state (sq_commit E) s =
     (if fault_at E (tick s) = Fine \<and> saved s \<noteq> None then (True, (bump s)\<lparr>saved := None\<rparr>)
      else (False, bump s))"
  by (simp add: sq_commit_def run_next_call)

lemma run_rollback [simp]:
  "calm E s \<Longrightarrow> run_state (sq_rollback E) s =
     (case (if fault_at E (tick s) = Fine then saved s else None) of
        None \<Rightarrow> (False, bump s)
      | Some t \<Rightarrow> (True, (bump s)\<lparr>tabs := t, saved := None\<rparr>))"
  by (simp add: sq_rollback_def run_next_call split: option.splits)

lemma column_int_small: "0 \<le> i \<Longrightarrow> i < 2 ^ 31 \<Longrightarrow> column_int i = i"
  by (simp add: column_int_def signed_take_bit_int_eq_self)

lemma column_int64_small: "0 \<le> i \<Longrightarrow> i < 2 ^ 63 \<Longrightarrow> column_int64 i = i"
  by (simp add: column_int64_def signed_take_bit_int_eq_self)

text \<open>The bytes an \<open>INSERT\<close> that succeeds has stored.\<close>

definition bound_bytes :: "env \<Rightarrow> bytes \<Rightarrow> nat \<Rightarrow> bytes" where
  "bound_bytes E data sz =
     (let n = column_int (int sz)
      in if n < 0 then (case negative_blob E data n of None \<Rightarrow> [] | Some d \<Rightarrow> d)
         else take (nat n) data)"

lemma bind_blob_bound: "bind_blob E data sz = Some d \<Longrightarrow> d = bound_bytes E data sz"
  by (auto simp: bind_blob_def bound_bytes_def Let_def split: if_splits)

lemma bound_bytes_small [simp]: "sz < 2 ^ 31 \<Longrightarrow> bound_bytes E data sz = take sz data"
  by (simp add: bound_bytes_def column_int_small)

lemma bind_blob_small: "sz < 2 ^ 31 \<Longrightarrow> sz \<le> max_len E \<Longrightarrow> bind_blob E data sz = Some (take sz data)"
  by (simp add: bind_blob_def column_int_small)

text \<open>What survives the connection: the tables at \<open>BEGIN\<close> while a transaction is open.\<close>

definition durable :: "conn \<Rightarrow> tables" where
  "durable s = (case saved s of None \<Rightarrow> tabs s | Some t \<Rightarrow> t)"

end
