(* ===== verification/Overlay_Fs.thy ===== *)
theory Overlay_Fs
  imports Sqlite_Db
begin

text \<open>
  hbf/db/overlay_fs.c: the versioned file system. One definition per C function, over the
  tables and the call environment of \<open>Sqlite_Db\<close>. \<open>sqlite3 *\<close> is NULL or the process's one
  connection; \<open>path\<close> and \<open>data\<close> are NULL or their contents; the output pointers \<open>data\<close>,
  \<open>size\<close> of the readers are NULL or the caller's variables, which are part of the result.
  Logging is left out: it does not change any state of the program.
\<close>

section \<open>Handles and outputs\<close>

datatype sqlite3_ptr = Null_db | Main_db

text \<open>The caller's variables \<open>unsigned char *data; size_t size\<close>.\<close>

type_synonym outs = "bytes option \<times> nat"

section \<open>Schema check\<close>

definition overlay_fs_check_schema :: "env \<Rightarrow> int dbm" where
  "overlay_fs_check_schema E = do {
     ok \<leftarrow> sq_prepare E [];
     if \<not> ok then ret (-1)
     else do {
       r \<leftarrow> sq_select E (\<lambda>t. Some (int (length
              (filter (\<lambda>n. n \<in> {''file_versions'', ''file_ids''}) (t_tables t)))));
       ret (case r of Step_Row cnt \<Rightarrow> if cnt < 2 then -1 else 0 | _ \<Rightarrow> -1)
     }
   }"

section \<open>Writing\<close>

text \<open>The last part of \<open>overlay_fs_write\<close>: the row of the new version. An empty file binds
  a zero-length blob, not NULL. The size column is bound with 64 bits, the length of the
  blob with 32.\<close>

definition insert_new_version ::
    "env \<Rightarrow> int \<Rightarrow> string \<Rightarrow> int \<Rightarrow> bytes \<Rightarrow> nat \<Rightarrow> int dbm" where
  "insert_new_version E file_id path next_version data sz = do {
     ok \<leftarrow> sq_prepare E [''file_versions''];
     if \<not> ok then ret (-1)
     else do {
       s \<leftarrow> State_Monad.get;
       finished \<leftarrow> sq_change E
         (insert_file_version file_id path next_version (clock E (tick s))
            (column_int64 (int sz)) (if sz = 0 then Some [] else bind_blob E data sz))
         (\<lambda>_ r. r);
       ret (if finished then 0 else -1)
     }
   }"

text \<open>The branch \<open>file_id < 0\<close>: a new \<open>file_ids\<close> row, whose id is read back with
  \<open>(int)sqlite3_last_insert_rowid(db)\<close>.\<close>

definition write_new_path :: "env \<Rightarrow> string \<Rightarrow> bytes \<Rightarrow> nat \<Rightarrow> int dbm" where
  "write_new_path E path data sz = do {
     ok \<leftarrow> sq_prepare E [''file_ids''];
     if \<not> ok then ret (-1)
     else do {
       finished \<leftarrow> sq_change E (insert_file_id path) (\<lambda>t _. file_ids_seq t);
       if \<not> finished then ret (-1)
       else do {
         s \<leftarrow> State_Monad.get;
         insert_new_version E (column_int (last_rowid s)) path 1 data sz
       }
     }
   }"

text \<open>The other branch: the version after the greatest one. A failed step leaves
  \<open>next_version\<close> at 1.\<close>

definition write_known_path :: "env \<Rightarrow> int \<Rightarrow> string \<Rightarrow> bytes \<Rightarrow> nat \<Rightarrow> int dbm" where
  "write_known_path E file_id path data sz = do {
     ok \<leftarrow> sq_prepare E [''file_versions''];
     if \<not> ok then ret (-1)
     else do {
       r \<leftarrow> sq_select E (\<lambda>t. Some (select_max_version file_id t));
       insert_new_version E file_id path
         (case r of Step_Row m \<Rightarrow> column_int_null m + 1 | _ \<Rightarrow> 1) data sz
     }
   }"

definition write_at :: "env \<Rightarrow> string \<Rightarrow> bytes \<Rightarrow> nat \<Rightarrow> int dbm" where
  "write_at E path data sz = do {
     ok \<leftarrow> sq_prepare E [''file_ids''];
     if \<not> ok then ret (-1)
     else do {
       r \<leftarrow> sq_select E (select_file_id path);
       (let file_id = (case r of Step_Row i \<Rightarrow> column_int i | _ \<Rightarrow> -1)
        in if file_id < 0 then write_new_path E path data sz
           else write_known_path E file_id path data sz)
     }
   }"

definition overlay_fs_write ::
    "env \<Rightarrow> sqlite3_ptr \<Rightarrow> string option \<Rightarrow> bytes option \<Rightarrow> nat \<Rightarrow> int dbm" where
  "overlay_fs_write E db path data sz =
     (case (db, path) of
        (Main_db, Some p) \<Rightarrow>
          if sz > 0 \<and> data = None then ret (-1)
          else write_at E p (case data of None \<Rightarrow> [] | Some d \<Rightarrow> d) sz
      | _ \<Rightarrow> ret (-1))"

section \<open>Reading\<close>

text \<open>Copying the blob out. An empty file gets a one-byte buffer and size 0.\<close>

definition copy_blob :: "env \<Rightarrow> bytes \<Rightarrow> (int \<times> outs) dbm" where
  "copy_blob E blob =
     (if length blob > 0
      then do {
        ok \<leftarrow> c_malloc E;
        ret (if ok then (0, Some blob, length blob) else (-1, None, 0))
      }
      else do {
        ok \<leftarrow> c_malloc E;
        ret (if ok then (0, Some [], 0) else (-1, None, 0))
      })"

definition overlay_fs_read ::
    "env \<Rightarrow> sqlite3_ptr \<Rightarrow> string option \<Rightarrow> outs option \<Rightarrow> (int \<times> outs option) dbm" where
  "overlay_fs_read E db path outp =
     (case (db, path, outp) of
        (Main_db, Some p, Some _) \<Rightarrow> do {
          ok \<leftarrow> sq_prepare E [''file_ids'', ''file_versions''];
          if \<not> ok then ret (-1, Some (None, 0))
          else do {
            r \<leftarrow> sq_select E (select_latest_by_id p);
            (case r of
               Step_Row blob \<Rightarrow> do { (rc, o') \<leftarrow> copy_blob E blob; ret (rc, Some o') }
             | Step_Done \<Rightarrow> ret (-1, Some (None, 0))
             | Step_Error \<Rightarrow> ret (-1, Some (None, 0)))
          }
        }
      | _ \<Rightarrow> ret (-1, outp))"

text \<open>\<open>overlay_fs_exists\<close>: 1, 0, or -1 on an error.\<close>

definition overlay_fs_exists :: "env \<Rightarrow> sqlite3_ptr \<Rightarrow> string option \<Rightarrow> int dbm" where
  "overlay_fs_exists E db path =
     (case (db, path) of
        (Main_db, Some p) \<Rightarrow> do {
          ok \<leftarrow> sq_prepare E [''file_ids''];
          if \<not> ok then ret (-1)
          else do {
            r \<leftarrow> sq_select E (select_file_id p);
            ret (case r of Step_Row _ \<Rightarrow> 1 | Step_Done \<Rightarrow> 0 | Step_Error \<Rightarrow> -1)
          }
        }
      | _ \<Rightarrow> ret (-1))"

definition overlay_fs_version_count :: "env \<Rightarrow> sqlite3_ptr \<Rightarrow> string option \<Rightarrow> int dbm" where
  "overlay_fs_version_count E db path =
     (case (db, path) of
        (Main_db, Some p) \<Rightarrow> do {
          ok \<leftarrow> sq_prepare E [''file_versions'', ''file_ids''];
          if \<not> ok then ret (-1)
          else do {
            r \<leftarrow> sq_select E (\<lambda>t. Some (select_version_count p t));
            ret (case r of Step_Row n \<Rightarrow> column_int n | _ \<Rightarrow> -1)
          }
        }
      | _ \<Rightarrow> ret (-1))"

section \<open>The global handle\<close>

text \<open>\<open>g_overlay_db\<close> is the first argument of the functions that use it;
  \<open>overlay_fs_init_global\<close> sets it.\<close>

definition overlay_fs_init_global :: "sqlite3_ptr \<Rightarrow> sqlite3_ptr \<Rightarrow> sqlite3_ptr" where
  "overlay_fs_init_global g db = db"

definition overlay_fs_read_file ::
    "env \<Rightarrow> sqlite3_ptr \<Rightarrow> string option \<Rightarrow> int \<Rightarrow> outs option \<Rightarrow> (int \<times> outs option) dbm" where
  "overlay_fs_read_file E g path dev outp =
     (case g of
        Null_db \<Rightarrow> ret (-1, outp)
      | Main_db \<Rightarrow>
          (case (path, outp) of
             (Some p, Some _) \<Rightarrow> do {
               ok \<leftarrow> sq_prepare E [''latest_files''];
               if \<not> ok then ret (-1, Some (None, 0))
               else do {
                 r \<leftarrow> sq_select E (select_latest_by_view p);
                 (case r of
                    Step_Row blob \<Rightarrow> do { (rc, o') \<leftarrow> copy_blob E blob; ret (rc, Some o') }
                  | Step_Done \<Rightarrow> ret (-1, Some (None, 0))
                  | Step_Error \<Rightarrow> ret (-1, Some (None, 0)))
               }
             }
           | _ \<Rightarrow> ret (-1, outp)))"

definition overlay_fs_write_file ::
    "env \<Rightarrow> sqlite3_ptr \<Rightarrow> string option \<Rightarrow> bytes option \<Rightarrow> nat \<Rightarrow> int dbm" where
  "overlay_fs_write_file E g path data sz =
     (case g of Null_db \<Rightarrow> ret (-1) | Main_db \<Rightarrow> overlay_fs_write E g path data sz)"

end
