(* ===== verification/Overlay_Inv.thy ===== *)
theory Overlay_Inv
  imports Overlay_Fs
begin

text \<open>
  The contract of the versioned file system on its tables: the well-formedness invariant
  \<open>wf\<close>, the abstraction \<open>history\<close> (for every path the contents of its versions, oldest
  first), and what each SQL statement of the code does to both.
\<close>

section \<open>Invariant and abstraction\<close>

definition versions_of :: "int \<Rightarrow> tables \<Rightarrow> version_row list" where
  "versions_of fid t = filter (\<lambda>v. v_file_id v = fid) (file_versions t)"

definition history :: "tables \<Rightarrow> string \<Rightarrow> bytes list" where
  "history t path =
     (case select_file_id path t of None \<Rightarrow> [] | Some fid \<Rightarrow> map v_data (versions_of fid t))"

text \<open>Paths and ids determine each other, and the counter is past every id.\<close>

definition wf_ids :: "tables \<Rightarrow> bool" where
  "wf_ids t \<longleftrightarrow> distinct (map fst (file_ids t)) \<and> distinct (map snd (file_ids t)) \<and>
     0 \<le> file_ids_seq t \<and> (\<forall>(i, p) \<in> set (file_ids t). 1 \<le> i \<and> i \<le> file_ids_seq t)"

text \<open>Versions belong to a known file and are numbered 1, 2, 3, ... in order of insertion.\<close>

definition numbering :: "nat \<Rightarrow> int list" where
  "numbering n = map (\<lambda>i. int i + 1) [0..<n]"

definition wf_versions :: "tables \<Rightarrow> bool" where
  "wf_versions t \<longleftrightarrow>
     (\<forall>v \<in> set (file_versions t). (v_file_id v, v_path v) \<in> set (file_ids t)) \<and>
     (\<forall>fid. map v_number (versions_of fid t) = numbering (length (versions_of fid t)))"

text \<open>The size column is the length of the data. This is not part of \<open>wf\<close>: a write of 2^31
  bytes or more breaks it.\<close>

definition true_sizes :: "tables \<Rightarrow> bool" where
  "true_sizes t \<longleftrightarrow> (\<forall>v \<in> set (file_versions t). v_size v = int (length (v_data v)))"

text \<open>The materialised metadata has exactly one row per file with a version: its latest.\<close>

definition latest_meta :: "int \<Rightarrow> tables \<Rightarrow> meta_row option" where
  "latest_meta fid t =
     (if versions_of fid t = [] then None else Some (meta_of (last (versions_of fid t))))"

definition wf_meta :: "tables \<Rightarrow> bool" where
  "wf_meta t \<longleftrightarrow> t_trigger t \<and> distinct (map m_file_id (latest_files_meta t)) \<and>
     (\<forall>fid. find (\<lambda>m. m_file_id m = fid) (latest_files_meta t) = latest_meta fid t)"

definition wf :: "tables \<Rightarrow> bool" where
  "wf t \<longleftrightarrow> wf_ids t \<and> wf_versions t \<and> wf_meta t"

text \<open>Room for \<open>k\<close> more writes before an id or a version number leaves \<open>int\<close>.\<close>

definition room :: "nat \<Rightarrow> tables \<Rightarrow> bool" where
  "room k t \<longleftrightarrow> file_ids_seq t + int k < 2 ^ 31 \<and> length (file_versions t) + k < 2 ^ 31"

lemma roomD: "room k t \<Longrightarrow> j \<le> k \<Longrightarrow> room j t"
  by (simp add: room_def)

lemma numbering_simps [simp]:
  "numbering 0 = []" "numbering (Suc n) = numbering n @ [int n + 1]" "length (numbering n) = n"
  by (simp_all add: numbering_def)

lemma numbering_nth: "i < n \<Longrightarrow> numbering n ! i = int i + 1"
  by (simp add: numbering_def)

lemma set_numbering: "set (numbering n) = {1..int n}"
proof (induction n)
  case 0
  show ?case by simp
next
  case (Suc n)
  have "{1..int (Suc n)} = insert (int n + 1) {1..int n}" by auto
  with Suc show ?case by simp
qed

section \<open>Looking a path up\<close>

lemma find_pair_snd:
  "distinct (map snd ps) \<Longrightarrow> (i, p) \<in> set ps \<Longrightarrow> find (\<lambda>(i, q). q = p) ps = Some (i, p)"
  by (induction ps) force+

lemma select_file_id_iff:
  "wf_ids t \<Longrightarrow> select_file_id p t = Some i \<longleftrightarrow> (i, p) \<in> set (file_ids t)"
  by (auto simp: select_file_id_def wf_ids_def find_pair_snd dest: find_SomeD)

lemma select_file_id_None:
  "select_file_id p t = None \<longleftrightarrow> p \<notin> snd ` set (file_ids t)"
  by (force simp: select_file_id_def find_None_iff)

lemma wf_ids_inj:
  assumes "wf_ids t" "(i, p) \<in> set (file_ids t)" "(j, q) \<in> set (file_ids t)"
  shows "i = j \<longleftrightarrow> p = q"
proof -
  have "inj_on fst (set (file_ids t))" "inj_on snd (set (file_ids t))"
    using assms(1) by (simp_all add: wf_ids_def distinct_map)
  then show ?thesis using assms(2,3) by (metis fst_conv inj_onD prod.inject snd_conv)
qed

lemma wf_ids_range: "wf_ids t \<Longrightarrow> (i, p) \<in> set (file_ids t) \<Longrightarrow> 1 \<le> i \<and> i \<le> file_ids_seq t"
  by (auto simp: wf_ids_def)

lemma versions_of_unknown:
  assumes "wf t" "\<forall>p. (fid, p) \<notin> set (file_ids t)"
  shows "versions_of fid t = []"
  using assms by (auto simp: versions_of_def wf_def wf_versions_def filter_empty_iff)

lemma history_known:
  "wf_ids t \<Longrightarrow> (fid, p) \<in> set (file_ids t) \<Longrightarrow> history t p = map v_data (versions_of fid t)"
  by (simp add: history_def select_file_id_iff [THEN iffD2])

section \<open>A new path\<close>

lemma insert_file_id_Some:
  "insert_file_id p t = Some t' \<longleftrightarrow>
     p \<notin> snd ` set (file_ids t) \<and> file_ids_seq t < 2 ^ 63 - 1 \<and>
     t' = t\<lparr>file_ids := file_ids t @ [(file_ids_seq t + 1, p)], file_ids_seq := file_ids_seq t + 1\<rparr>"
  by (auto simp: insert_file_id_def)

lemma insert_file_id_wf:
  assumes "wf t" "insert_file_id p t = Some t'"
  shows "wf t'" and "history t' = history t" and "(file_ids_seq t', p) \<in> set (file_ids t')"
    and "versions_of (file_ids_seq t') t' = []"
proof -
  let ?n = "file_ids_seq t + 1"
  have t': "t' = t\<lparr>file_ids := file_ids t @ [(?n, p)], file_ids_seq := ?n\<rparr>"
    and new: "p \<notin> snd ` set (file_ids t)"
    using assms(2) by (auto simp: insert_file_id_Some)
  have ids: "wf_ids t" using assms(1) by (simp add: wf_def)
  have fresh: "(?n, q) \<notin> set (file_ids t)" for q
    using wf_ids_range [OF ids, of ?n q] by auto
  have vs: "versions_of fid t' = versions_of fid t" for fid
    by (simp add: t' versions_of_def)
  have ids': "wf_ids t'"
    using ids new fresh by (force simp: t' wf_ids_def)
  show "wf t'"
    using assms(1) ids' by (auto simp: wf_def wf_versions_def wf_meta_def latest_meta_def vs) (auto simp: t')
  show "(file_ids_seq t', p) \<in> set (file_ids t')" by (simp add: t')
  show none: "versions_of (file_ids_seq t') t' = []"
    using versions_of_unknown [OF assms(1), of ?n] fresh by (simp add: vs) (simp add: t')
  show "history t' = history t"
  proof
    fix q
    show "history t' q = history t q"
    proof (cases "q = p")
      case True
      then have "history t q = []"
        using new by (simp add: history_def select_file_id_None [THEN iffD2])
      moreover have "history t' q = []"
        using True none history_known [OF ids', of ?n p] by (simp add: t')
      ultimately show ?thesis by simp
    next
      case False
      then have "select_file_id q t' = select_file_id q t"
        by (simp add: select_file_id_def t' find_append split: option.splits)
      then show ?thesis by (simp add: history_def vs cong: option.case_cong)
    qed
  qed
qed

section \<open>A new version\<close>

lemma upsert_meta_find:
  assumes "\<And>x. find (\<lambda>m. m_file_id m = m_file_id r) ms = Some x \<Longrightarrow> m_number x \<le> m_number r"
    and "distinct (map m_file_id ms)"
  shows "find (\<lambda>m. m_file_id m = fid) (upsert_meta r ms) =
     (if fid = m_file_id r then Some r else find (\<lambda>m. m_file_id m = fid) ms)"
proof (cases "list_ex (\<lambda>x. m_file_id x = m_file_id r) ms")
  case False
  then have "find (\<lambda>m. m_file_id m = m_file_id r) ms = None"
    by (auto simp: find_None_iff list_ex_iff)
  with False show ?thesis by (simp add: upsert_meta_def find_append split: option.splits)
next
  case True
  let ?f = "\<lambda>x. if m_file_id x = m_file_id r \<and> m_number x \<le> m_number r then r else x"
  have other: "find (\<lambda>m. m_file_id m = fid) (map ?f xs) = find (\<lambda>m. m_file_id m = fid) xs"
    if "fid \<noteq> m_file_id r \<or> m_file_id r \<notin> m_file_id ` set xs" for xs
    using that by (induction xs) auto
  have "find (\<lambda>m. m_file_id m = fid) (map ?f ms) =
      (if fid = m_file_id r then Some r else find (\<lambda>m. m_file_id m = fid) ms)"
    using assms True by (induction ms) (auto simp: other split: if_splits)
  with True show ?thesis by (simp add: upsert_meta_def)
qed

lemma upsert_meta_distinct:
  assumes "distinct (map m_file_id ms)"
  shows "distinct (map m_file_id (upsert_meta r ms))"
proof -
  let ?f = "\<lambda>x. if m_file_id x = m_file_id r \<and> m_number x \<le> m_number r then r else x"
  have "map m_file_id (map ?f ms) = map m_file_id ms" by (induction ms) auto
  with assms have "distinct (map m_file_id (map ?f ms))" by (simp only:)
  with assms show ?thesis by (auto simp: upsert_meta_def list_ex_iff simp del: map_map)
qed

lemma wf_numbering: "wf t \<Longrightarrow> map v_number (versions_of fid t) = numbering (length (versions_of fid t))"
  by (simp add: wf_def wf_versions_def)

lemma version_numbers:
  assumes "wf t"
  shows "v_number ` {w \<in> set (file_versions t). v_file_id w = fid} = {1..int (length (versions_of fid t))}"
proof -
  have "v_number ` {w \<in> set (file_versions t). v_file_id w = fid} = set (map v_number (versions_of fid t))"
    by (auto simp: versions_of_def)
  then show ?thesis by (simp only: wf_numbering [OF assms] set_numbering)
qed

lemma select_max_version_wf:
  assumes "wf t"
  shows "select_max_version fid t =
     (if versions_of fid t = [] then None else Some (int (length (versions_of fid t))))"
proof -
  let ?n = "length (versions_of fid t)"
  have max: "Max {1..int n} = int n" if "0 < n" for n using that by (intro Max_eqI) auto
  have "select_max_version fid t =
      (if numbering ?n = [] then None else Some (Max (set (numbering ?n))))"
    by (simp only: select_max_version_def versions_of_def [symmetric] wf_numbering [OF assms] Let_def)
  also have "numbering ?n = [] \<longleftrightarrow> versions_of fid t = []"
    by (simp flip: length_0_conv)
  finally show ?thesis by (simp add: set_numbering max)
qed

lemma versions_of_number:
  assumes "wf t" "i < length (versions_of fid t)"
  shows "v_number (versions_of fid t ! i) = int i + 1"
  using arg_cong [OF wf_numbering [OF assms(1), of fid], of "\<lambda>xs. xs ! i"] assms(2)
  by (simp add: numbering_nth)

text \<open>Inserting version \<open>n\<close> of a file succeeds exactly when \<open>n\<close> is not among its versions;
  with the next number it keeps the invariant and appends to the history.\<close>

lemma insert_file_version_clash:
  assumes "wf t" "1 \<le> n" "n \<le> int (length (versions_of fid t))"
  shows "insert_file_version fid p n m sz d t = None"
proof -
  have "n \<in> v_number ` {w \<in> set (file_versions t). v_file_id w = fid}"
    using assms(2,3) by (simp add: version_numbers [OF assms(1)])
  then show ?thesis
    by (auto simp: insert_file_version_def list_ex_iff split: option.splits)
qed

lemma insert_file_version_fresh:
  assumes "wf t"
  shows "\<exists>t'. insert_file_version fid p (int (length (versions_of fid t)) + 1) m sz (Some d) t = Some t'"
proof -
  have "int (length (versions_of fid t)) + 1 \<notin> v_number ` {w \<in> set (file_versions t). v_file_id w = fid}"
    by (simp add: version_numbers [OF assms])
  then have "\<not> list_ex (\<lambda>v. v_file_id v = fid \<and> v_number v = int (length (versions_of fid t)) + 1)
      (file_versions t)"
    unfolding list_ex_iff by (metis (mono_tags, lifting) image_eqI mem_Collect_eq)
  then show ?thesis by (simp add: insert_file_version_def Let_def)
qed

lemma insert_file_version_frame:
  assumes "insert_file_version fid p n m sz b t = Some t'"
  shows "t_tables t' = t_tables t" "t_views t' = t_views t" "migrations t' = migrations t"
    and "\<exists>v. file_versions t' = file_versions t @ [v]"
  using assms by (auto simp: insert_file_version_def Let_def split: option.splits if_splits)

lemma versions_of_le: "length (versions_of fid t) \<le> length (file_versions t)"
  by (simp add: versions_of_def)

lemma insert_file_version_next:
  assumes wf: "wf t" and known: "(fid, p) \<in> set (file_ids t)"
    and t': "insert_file_version fid p (int (length (versions_of fid t)) + 1) m sz (Some d) t = Some t'"
  shows "wf t'" and "history t' = (history t)(p := history t p @ [d])"
    and "file_ids t' = file_ids t" and "file_ids_seq t' = file_ids_seq t"
    and "length (file_versions t') = Suc (length (file_versions t))"
    and "true_sizes t \<Longrightarrow> sz = int (length d) \<Longrightarrow> true_sizes t'"
proof -
  let ?n = "length (versions_of fid t)"
  define v where "v = \<lparr>v_file_id = fid, v_path = p, v_number = int ?n + 1, v_mtime = m,
    v_size = sz, v_data = d\<rparr>"
  have trig: "t_trigger t" using wf by (simp add: wf_def wf_meta_def)
  have eq: "t' = t\<lparr>file_versions := file_versions t @ [v],
      latest_files_meta := upsert_meta (meta_of v) (latest_files_meta t)\<rparr>"
    using t' trig by (auto simp: insert_file_version_def v_def Let_def split: if_splits)
  show "file_ids t' = file_ids t" "file_ids_seq t' = file_ids_seq t"
    "length (file_versions t') = Suc (length (file_versions t))"
    by (simp_all add: eq)
  show "true_sizes t \<Longrightarrow> sz = int (length d) \<Longrightarrow> true_sizes t'"
    by (auto simp: true_sizes_def eq v_def)
  have vs: "versions_of i t' = (if i = fid then versions_of i t @ [v] else versions_of i t)" for i
    by (simp add: versions_of_def eq v_def)
  have ids: "wf_ids t" using wf by (simp add: wf_def)
  then have ids': "wf_ids t'" by (simp add: wf_ids_def eq)
  have num: "map v_number (versions_of i t') = numbering (length (versions_of i t'))" for i
    by (simp add: vs v_def wf_numbering [OF wf])
  have vers': "wf_versions t'"
    unfolding wf_versions_def using wf known num
    by (auto simp: wf_def wf_versions_def eq v_def)
  have meta: "distinct (map m_file_id (latest_files_meta t))"
      "find (\<lambda>m. m_file_id m = i) (latest_files_meta t) = latest_meta i t" for i
    using wf by (simp_all add: wf_def wf_meta_def)
  have below: "m_number x \<le> m_number (meta_of v)"
    if "find (\<lambda>m. m_file_id m = m_file_id (meta_of v)) (latest_files_meta t) = Some x" for x
  proof -
    from that have "latest_meta fid t = Some x" using meta(2) [of fid] by (simp add: meta_of_def v_def)
    then have "versions_of fid t \<noteq> []" "x = meta_of (last (versions_of fid t))"
      by (auto simp: latest_meta_def split: if_splits)
    then show ?thesis
      using versions_of_number [OF wf, of "?n - 1" fid]
      by (simp add: meta_of_def v_def last_conv_nth)
  qed
  have lm: "latest_meta i t' = (if i = fid then Some (meta_of v) else latest_meta i t)" for i
    by (simp add: latest_meta_def vs)
  have mv: "m_file_id (meta_of v) = fid" by (simp add: meta_of_def v_def)
  have ms: "latest_files_meta t' = upsert_meta (meta_of v) (latest_files_meta t)" "t_trigger t'"
    using trig by (simp_all add: eq)
  have "find (\<lambda>m. m_file_id m = i) (latest_files_meta t') = latest_meta i t'" for i
    using upsert_meta_find [OF below meta(1), of i] by (simp add: ms lm mv meta(2))
  then have "wf_meta t'"
    using upsert_meta_distinct [OF meta(1)] by (simp add: wf_meta_def ms)
  with ids' vers' show "wf t'" by (simp add: wf_def)
  show "history t' = (history t)(p := history t p @ [d])"
  proof
    fix q
    show "history t' q = ((history t)(p := history t p @ [d])) q"
    proof (cases "select_file_id q t")
      case None
      then have "q \<noteq> p" using known by (force simp: select_file_id_None)
      with None show ?thesis by (simp add: history_def eq select_file_id_def)
    next
      case (Some i)
      then have "(i, q) \<in> set (file_ids t)" using ids by (simp add: select_file_id_iff)
      then have "i = fid \<longleftrightarrow> q = p" using wf_ids_inj [OF ids] known by blast
      moreover have "select_file_id q t' = Some i" using Some by (simp add: eq select_file_id_def)
      ultimately show ?thesis using Some by (simp add: history_def vs) (auto simp: v_def)
    qed
  qed
qed

section \<open>The queries\<close>

lemma last_number_max:
  assumes "wf t" "v \<in> set (file_versions t)"
  shows "v_number v = Max (v_number ` {w \<in> set (file_versions t). v_file_id w = v_file_id v}) \<longleftrightarrow>
     v = last (versions_of (v_file_id v) t)"
proof -
  let ?vs = "versions_of (v_file_id v) t" and ?n = "length (versions_of (v_file_id v) t)"
  have "v \<in> set ?vs" using assms(2) by (simp add: versions_of_def)
  then obtain i where i: "i < ?n" "v = ?vs ! i" by (auto simp: in_set_conv_nth)
  have "Max {1..int ?n} = int ?n" using i(1) by (intro Max_eqI) auto
  then have "v_number v = Max (v_number ` {w \<in> set (file_versions t). v_file_id w = v_file_id v}) \<longleftrightarrow>
      i = ?n - 1"
    using versions_of_number [OF assms(1) i(1)] i by (simp add: version_numbers [OF assms(1)]) linarith
  also have "\<dots> \<longleftrightarrow> v = last ?vs"
  proof
    assume "i = ?n - 1"
    then show "v = last ?vs" using i by (metis last_conv_nth length_0_conv less_nat_zero_code)
  next
    assume "v = last ?vs"
    then have "?vs ! i = ?vs ! (?n - 1)" using i by (metis last_conv_nth length_0_conv less_nat_zero_code)
    then have "int i + 1 = int (?n - 1) + 1"
      using versions_of_number [OF assms(1)] i(1) by (metis diff_less length_greater_0_conv
          length_0_conv less_nat_zero_code zero_less_one)
    then show "i = ?n - 1" by simp
  qed
  finally show ?thesis .
qed

lemma set_latest_files:
  assumes "wf t"
  shows "v \<in> set (latest_files t) \<longleftrightarrow>
     versions_of (v_file_id v) t \<noteq> [] \<and> v = last (versions_of (v_file_id v) t)"
proof
  assume "v \<in> set (latest_files t)"
  then have "v \<in> set (file_versions t)" "v = last (versions_of (v_file_id v) t)"
    using last_number_max [OF assms] by (auto simp: latest_files_def)
  then show "versions_of (v_file_id v) t \<noteq> [] \<and> v = last (versions_of (v_file_id v) t)"
    by (auto simp: versions_of_def filter_empty_iff)
next
  assume v: "versions_of (v_file_id v) t \<noteq> [] \<and> v = last (versions_of (v_file_id v) t)"
  then have "v \<in> set (versions_of (v_file_id v) t)" by (metis last_in_set)
  then have "v \<in> set (file_versions t)" by (simp add: versions_of_def)
  then show "v \<in> set (latest_files t)"
    using v last_number_max [OF assms] by (simp add: latest_files_def)
qed

lemma latest_by_view_history:
  assumes "wf t"
  shows "select_latest_by_view p t = (if history t p = [] then None else Some (last (history t p)))"
proof -
  have ids: "wf_ids t" using assms by (simp add: wf_def)
  have path: "(v_file_id v, v_path v) \<in> set (file_ids t)" if "v \<in> set (latest_files t)" for v
    using assms that by (auto simp: wf_def wf_versions_def latest_files_def)
  show ?thesis
  proof (cases "find (\<lambda>v. v_path v = p) (latest_files t)")
    case None
    have "history t p = []"
    proof (rule ccontr)
      assume ne: "history t p \<noteq> []"
      then obtain i where i: "(i, p) \<in> set (file_ids t)" "versions_of i t \<noteq> []"
        by (auto simp: history_def select_file_id_iff [OF ids] split: option.splits)
      let ?v = "last (versions_of i t)"
      have "?v \<in> set (versions_of i t)" using i(2) by simp
      then have fid: "v_file_id ?v = i" by (auto simp: versions_of_def)
      then have "?v \<in> set (latest_files t)" using i(2) by (simp add: set_latest_files [OF assms])
      moreover have "v_path ?v = p" using path [OF calculation] fid i(1) wf_ids_inj [OF ids] by blast
      ultimately show False using None by (auto simp: find_None_iff)
    qed
    with None show ?thesis by (simp add: select_latest_by_view_def)
  next
    case (Some v)
    then have v: "v \<in> set (latest_files t)" "v_path v = p" by (auto dest: find_SomeD)
    then have "history t p = map v_data (versions_of (v_file_id v) t)"
      using path history_known [OF ids] by blast
    with v Some show ?thesis
      by (auto simp: select_latest_by_view_def set_latest_files [OF assms] last_map)
  qed
qed

lemma sort_key_rev_numbers:
  assumes "map v_number vs = numbering (length vs)"
  shows "sort_key (\<lambda>v. - v_number v) vs = rev vs"
proof -
  have srt: "sorted (map (\<lambda>v. - v_number v) (rev vs))"
  proof (rule sorted_iff_nth_mono [THEN iffD2], intro allI impI)
    fix i j assume ij: "i \<le> j" "j < length (map (\<lambda>v. - v_number v) (rev vs))"
    have num: "v_number (vs ! k) = int k + 1" if "k < length vs" for k
      using arg_cong [OF assms, of "\<lambda>xs. xs ! k"] that by (simp add: numbering_nth)
    show "map (\<lambda>v. - v_number v) (rev vs) ! i \<le> map (\<lambda>v. - v_number v) (rev vs) ! j"
      using ij by (simp add: rev_nth num)
  qed
  have dist: "distinct (map (\<lambda>v. - v_number v) vs)"
  proof -
    have "distinct (map v_number vs)"
      unfolding assms by (simp add: numbering_def distinct_map inj_on_def)
    then show ?thesis by (simp add: distinct_map inj_on_def)
  qed
  show ?thesis
  proof (rule map_sorted_distinct_set_unique)
    show "inj_on (\<lambda>v. - v_number v) (set (sort_key (\<lambda>v. - v_number v) vs) \<union> set (rev vs))"
      using dist by (simp add: distinct_map)
    show "distinct (map (\<lambda>v. - v_number v) (sort_key (\<lambda>v. - v_number v) vs))"
      using dist by (simp add: distinct_map)
    show "distinct (map (\<lambda>v. - v_number v) (rev vs))" using dist by (simp add: rev_map [symmetric])
  qed (use srt in simp_all)
qed

lemma latest_by_id_history:
  assumes "wf t"
  shows "select_latest_by_id p t = (if history t p = [] then None else Some (last (history t p)))"
proof -
  have ids: "wf_ids t" using assms by (simp add: wf_def)
  show ?thesis
  proof (cases "select_file_id p t")
    case None
    then have "filter (\<lambda>(i, q). q = p) (file_ids t) = []"
      by (auto simp: select_file_id_None filter_empty_iff image_iff)
    with None show ?thesis by (simp add: select_latest_by_id_def history_def)
  next
    case (Some i)
    then have i: "(i, p) \<in> set (file_ids t)" by (simp add: select_file_id_iff [OF ids])
    have "set (map fst (filter (\<lambda>(i, q). q = p) (file_ids t))) = {i}"
      using i wf_ids_inj [OF ids] by force
    then have "select_latest_by_id p t =
        (case sort_key (\<lambda>v. - v_number v) (versions_of i t) of [] \<Rightarrow> None | v # _ \<Rightarrow> Some (v_data v))"
      by (simp add: select_latest_by_id_def versions_of_def Let_def)
    also have "sort_key (\<lambda>v. - v_number v) (versions_of i t) = rev (versions_of i t)"
      by (rule sort_key_rev_numbers) (rule wf_numbering [OF assms])
    finally show ?thesis using Some
      by (cases "versions_of i t" rule: rev_cases) (simp_all add: history_def)
  qed
qed

lemma version_count_history:
  assumes "wf t"
  shows "select_version_count p t = int (length (history t p))"
proof -
  have ids: "wf_ids t" using assms by (simp add: wf_def)
  have count: "length (filter (\<lambda>(v, i, q). v_file_id v = i \<and> q = p) (List.product vs ps)) =
      length (filter (\<lambda>v. v_file_id v \<in> {i. (i, p) \<in> set ps}) vs)"
    if "distinct (map fst ps)" for vs :: "version_row list" and ps :: "(int \<times> string) list"
  proof (induction vs)
    case Nil
    show ?case by simp
  next
    case (Cons v vs)
    have "length (filter (\<lambda>(i, q). v_file_id v = i \<and> q = p) ps) =
        (if (v_file_id v, p) \<in> set ps then 1 else 0)"
      using that by (induction ps) (force simp: filter_empty_iff)+
    then show ?case using Cons by (simp add: filter_map o_def case_prod_unfold)
  qed
  have "distinct (map fst (file_ids t))" using ids by (simp add: wf_ids_def)
  then have c: "select_version_count p t =
      int (length (filter (\<lambda>v. v_file_id v \<in> {i. (i, p) \<in> set (file_ids t)}) (file_versions t)))"
    by (simp add: select_version_count_def count)
  show ?thesis
  proof (cases "select_file_id p t")
    case None
    then have "{i. (i, p) \<in> set (file_ids t)} = {}" by (force simp: select_file_id_None)
    with c None show ?thesis by (simp add: history_def)
  next
    case (Some i)
    then have "(i, p) \<in> set (file_ids t)" by (simp add: select_file_id_iff [OF ids])
    then have "{i. (i, p) \<in> set (file_ids t)} = {i}" using wf_ids_inj [OF ids] by blast
    with c Some show ?thesis by (simp add: history_def versions_of_def)
  qed
qed

lemma meta_set_latest:
  assumes "wf t"
  shows "set (latest_files_meta t) = set (latest_files_metadata t)"
proof -
  have d: "distinct (map m_file_id (latest_files_meta t))"
    and f: "\<And>i. find (\<lambda>m. m_file_id m = i) (latest_files_meta t) = latest_meta i t"
    using assms by (simp_all add: wf_def wf_meta_def)
  have mem: "m \<in> set ms \<longleftrightarrow> find (\<lambda>x. m_file_id x = m_file_id m) ms = Some m"
    if "distinct (map m_file_id ms)" for m and ms :: "meta_row list"
    using that by (induction ms) (auto dest: find_SomeD)
  have fid: "v_file_id (last (versions_of i t)) = i" if "versions_of i t \<noteq> []" for i
    using last_in_set [OF that] by (simp add: versions_of_def)
  have latest: "latest_meta (m_file_id m) t = Some m \<longleftrightarrow> m \<in> meta_of ` set (latest_files t)" for m
  proof
    assume "latest_meta (m_file_id m) t = Some m"
    then have ne: "versions_of (m_file_id m) t \<noteq> []" and m: "m = meta_of (last (versions_of (m_file_id m) t))"
      by (auto simp: latest_meta_def split: if_splits)
    have "last (versions_of (m_file_id m) t) \<in> set (latest_files t)"
      using ne fid [OF ne] by (simp add: set_latest_files [OF assms])
    with m show "m \<in> meta_of ` set (latest_files t)" by blast
  next
    assume "m \<in> meta_of ` set (latest_files t)"
    then obtain v where "m = meta_of v" "versions_of (v_file_id v) t \<noteq> []"
        "v = last (versions_of (v_file_id v) t)"
      by (auto simp: set_latest_files [OF assms])
    moreover have "m_file_id (meta_of v) = v_file_id v" by (simp add: meta_of_def)
    ultimately show "latest_meta (m_file_id m) t = Some m" by (simp add: latest_meta_def)
  qed
  have "m \<in> set (latest_files_meta t) \<longleftrightarrow> m \<in> set (latest_files_metadata t)" for m
    using mem [OF d, of m] f [of "m_file_id m"] latest [of m]
    by (simp add: latest_files_metadata_def)
  then show ?thesis by blast
qed

end
