(* ===== verification/Overlay_Spec.thy ===== *)
theory Overlay_Spec
  imports Overlay_Inv
begin

text \<open>
  What the operations of overlay_fs.c promise. A write appends one version to the path's
  history or, when it reports an error, leaves every history alone, whatever calls of
  SQLite fail under it, as long as SQLite does not roll an open transaction back; the
  readers return the last version. Contents whose length does not fit the C \<open>int\<close> are
  stored truncated, so the log only promises that contents that fit are stored as they
  are. The promise is stated as the locales \<open>version_log\<close> and \<open>version_store\<close>, in which the client's lemmas on sequences of
  writes are proved, and both are interpreted on the model of the C functions.
\<close>

section \<open>The interface\<close>

text \<open>The loop of a client that writes several files and stops at the first error.\<close>

fun write_list :: "('p \<Rightarrow> 'd \<Rightarrow> 's \<Rightarrow> int \<times> 's) \<Rightarrow> ('p \<times> 'd) list \<Rightarrow> 's \<Rightarrow> int \<times> 's" where
  "write_list w [] s = (0, s)"
| "write_list w ((p, d) # es) s =
     (case w p d s of (r, s') \<Rightarrow> if r < 0 then (-1, s') else write_list w es s')"

text \<open>The contents a list of entries adds to a path, in order.\<close>

definition contents_for :: "'p \<Rightarrow> ('p \<times> 'd) list \<Rightarrow> 'd list" where
  "contents_for p es = map snd (filter (\<lambda>e. fst e = p) es)"

lemma contents_for_simps [simp]:
  "contents_for p [] = []"
  "contents_for p ((q, d) # es) = (if q = p then d # contents_for p es else contents_for p es)"
  by (simp_all add: contents_for_def)

locale version_log =
  fixes put :: "'p \<Rightarrow> 'd \<Rightarrow> 's \<Rightarrow> int \<times> 's"
    and hist :: "'s \<Rightarrow> 'p \<Rightarrow> 'd list"
    and inv :: "nat \<Rightarrow> 's \<Rightarrow> bool"
    and fits :: "'d \<Rightarrow> bool"
  assumes write_inv: "inv (Suc k) s \<Longrightarrow> put p d s = (r, s') \<Longrightarrow> inv k s'"
    and write_done: "inv (Suc k) s \<Longrightarrow> put p d s = (r, s') \<Longrightarrow> 0 \<le> r \<Longrightarrow>
      \<exists>d'. (fits d \<longrightarrow> d' = d) \<and> hist s' = (hist s)(p := hist s p @ [d'])"
    and write_failed: "inv (Suc k) s \<Longrightarrow> put p d s = (r, s') \<Longrightarrow> r < 0 \<Longrightarrow> hist s' = hist s"
    and inv_weaken: "inv (Suc k) s \<Longrightarrow> inv k s"
begin

lemma inv_zero: "inv k s \<Longrightarrow> inv 0 s"
  by (induction k) (auto dest: inv_weaken)

lemma write_list_inv: "inv (length es) s \<Longrightarrow> write_list put es s = (r, s') \<Longrightarrow> inv 0 s'"
proof (induction es arbitrary: s)
  case Nil
  then show ?case by simp
next
  case (Cons e es)
  obtain p d where e: "e = (p, d)" by (cases e)
  obtain r1 s1 where w: "put p d s = (r1, s1)" by (cases "put p d s")
  have "inv (length es) s1" using Cons.prems(1) w by (simp add: write_inv)
  then show ?case using Cons.IH [of s1] Cons.prems(2) w e
    by (auto split: if_splits intro: inv_zero)
qed

lemma write_stored:
  "inv (Suc k) s \<Longrightarrow> put p d s = (r, s') \<Longrightarrow> 0 \<le> r \<Longrightarrow> fits d \<Longrightarrow>
     hist s' = (hist s)(p := hist s p @ [d])"
  using write_done [of k s p d r s'] by auto

lemma writes_only_append:
  "inv (length es) s \<Longrightarrow> write_list put es s = (r, s') \<Longrightarrow>
     \<exists>new. hist s' p = hist s p @ new \<and>
       ((\<forall>e \<in> set es. fits (snd e)) \<longrightarrow> (\<exists>rest. contents_for p es = new @ rest \<and> (0 \<le> r \<longrightarrow> rest = [])))"
proof (induction es arbitrary: s)
  case Nil
  then show ?case by simp
next
  case (Cons e es)
  obtain q d where e: "e = (q, d)" by (cases e)
  obtain r1 s1 where w: "put q d s = (r1, s1)" by (cases "put q d s")
  have inv: "inv (length es) s1" using Cons.prems(1) w by (simp add: write_inv)
  show ?case
  proof (cases "r1 < 0")
    case True
    then have "hist s' = hist s" "r < 0"
      using Cons.prems w e by (auto simp: write_failed)
    then show ?thesis by simp
  next
    case False
    then have "write_list put es s1 = (r, s')" using Cons.prems(2) w e by simp
    then obtain new where new: "hist s' p = hist s1 p @ new"
      "(\<forall>e \<in> set es. fits (snd e)) \<longrightarrow> (\<exists>rest. contents_for p es = new @ rest \<and> (0 \<le> r \<longrightarrow> rest = []))"
      using Cons.IH inv by blast
    obtain d' where d': "fits d \<longrightarrow> d' = d" "hist s1 = (hist s)(q := hist s q @ [d'])"
      using write_done [OF _ w] Cons.prems(1) False by auto
    show ?thesis
    proof (cases "q = p")
      case True
      have "hist s' p = hist s p @ (d' # new)" using new(1) d'(2) True by simp
      then show ?thesis using new(2) d'(1) True e by (intro exI [of _ "d' # new"]) auto
    next
      case False
      have "hist s' p = hist s p @ new" using new(1) d'(2) False by simp
      then show ?thesis using new(2) False e by (intro exI [of _ new]) auto
    qed
  qed
qed

lemma write_list_done:
  assumes "inv (length es) s" "write_list put es s = (r, s')" "0 \<le> r" "\<forall>e \<in> set es. fits (snd e)"
  shows "hist s' p = hist s p @ contents_for p es"
  using writes_only_append [OF assms(1,2), of p] assms(3,4) by auto

end

text \<open>A store adds the reader: what it returns is the last version, and it does return it
  where no call fails.\<close>

locale version_store = version_log +
  fixes fetch :: "'p \<Rightarrow> 's \<Rightarrow> 'd option"
    and healthy :: "'s \<Rightarrow> bool"
  assumes read_sound: "inv k s \<Longrightarrow> fetch p s = Some d \<Longrightarrow> hist s p \<noteq> [] \<and> d = last (hist s p)"
    and read_complete: "inv k s \<Longrightarrow> healthy s \<Longrightarrow> hist s p \<noteq> [] \<Longrightarrow> fetch p s \<noteq> None"
begin

lemma read_healthy:
  "inv k s \<Longrightarrow> healthy s \<Longrightarrow>
     fetch p s = (if hist s p = [] then None else Some (last (hist s p)))"
  using read_sound [of k s p] read_complete [of k s p] by (cases "fetch p s") auto

lemma read_after_write:
  assumes "inv (Suc k) s" "put p d s = (r, s')" "0 \<le> r" "healthy s'" "fits d"
  shows "fetch p s' = Some d"
proof -
  have "inv k s'" using assms(1,2) by (rule write_inv)
  moreover have "hist s' p = hist s p @ [d]" using assms by (simp add: write_stored)
  ultimately show ?thesis using assms(4) by (simp add: read_healthy)
qed

lemma read_other_after_write:
  assumes "inv (Suc k) s" "put p d s = (r, s')" "healthy s" "healthy s'" "q \<noteq> p"
  shows "fetch q s' = fetch q s"
proof -
  have "inv k s'" using assms(1,2) by (rule write_inv)
  moreover have "hist s' q = hist s q"
    using write_done [OF assms(1,2)] write_failed [OF assms(1,2)] assms(5)
    by (cases "r < 0") (auto simp: not_less)
  ultimately show ?thesis
    using read_healthy [OF assms(1,3)] assms(4) by (simp add: read_healthy)
qed

end

section \<open>Every branch of a write\<close>

text \<open>What a write never touches, and how far it moves the counters.\<close>

definition frame :: "conn \<Rightarrow> conn \<Rightarrow> bool" where
  "frame s s' \<longleftrightarrow> saved s' = saved s \<and> tick s \<le> tick s' \<and>
     t_tables (tabs s') = t_tables (tabs s) \<and> t_views (tabs s') = t_views (tabs s) \<and>
     migrations (tabs s') = migrations (tabs s) \<and>
     (\<exists>vs. file_versions (tabs s') = file_versions (tabs s) @ vs \<and> length vs \<le> 1) \<and>
     (\<exists>ids. file_ids (tabs s') = file_ids (tabs s) @ ids) \<and>
     file_ids_seq (tabs s') \<le> file_ids_seq (tabs s) + 1"

text \<open>One more version of \<open>p\<close> with the contents \<open>d\<close>, its size recorded as \<open>sz\<close>, or no change.\<close>

definition appended :: "string \<Rightarrow> bytes \<Rightarrow> nat \<Rightarrow> conn \<Rightarrow> int \<Rightarrow> conn \<Rightarrow> bool" where
  "appended p d sz s r s' \<longleftrightarrow> wf (tabs s') \<and> frame s s' \<and>
     (true_sizes (tabs s) \<and> column_int64 (int sz) = int (length d) \<longrightarrow> true_sizes (tabs s')) \<and>
     (r = 0 \<and> history (tabs s') = (history (tabs s))(p := history (tabs s) p @ [d]) \<or>
      r = -1 \<and> history (tabs s') = history (tabs s))"

lemma frame_calm: "calm E s \<Longrightarrow> frame s s' \<Longrightarrow> calm E s'"
  by (auto simp: calm_def frame_def)

lemma frame_room: "room (Suc k) (tabs s) \<Longrightarrow> frame s s' \<Longrightarrow> room k (tabs s')"
  by (auto simp: room_def frame_def)

lemma appended_same:
  "wf (tabs s) \<Longrightarrow> tabs s' = tabs s \<Longrightarrow> saved s' = saved s \<Longrightarrow> tick s \<le> tick s' \<Longrightarrow>
     appended p d sz s (-1) s'"
  by (simp add: appended_def frame_def)

text \<open>The statements of \<open>insert_new_version\<close>, whatever the number: version \<open>n\<close> either
  clashes with an existing one or is the next one.\<close>

lemma insert_new_version_outcome:
  assumes wf: "wf (tabs s)" and calm: "calm E s" and known: "(fid, p) \<in> set (file_ids (tabs s))"
    and n: "1 \<le> n" "n \<le> int (length (versions_of fid (tabs s))) + 1"
    and run: "run_state (insert_new_version E fid p n data sz) s = (r, s')"
  shows "appended p (bound_bytes E data sz) sz s r s' \<and> file_ids (tabs s') = file_ids (tabs s) \<and>
     file_ids_seq (tabs s') = file_ids_seq (tabs s)"
proof -
  let ?d = "bound_bytes E data sz" and ?vs = "versions_of fid (tabs s)"
  let ?blob = "if sz = 0 then Some [] else bind_blob E data sz"
  let ?n = "column_int64 (int sz)"
  let ?ins = "insert_file_version fid p n (clock E (tick (bump s))) ?n ?blob (tabs s)"
  have cases: "(r = -1 \<and> tabs s' = tabs s \<or> r = 0 \<and> ?ins = Some (tabs s')) \<and> saved s' = saved s \<and> tick s \<le> tick s'"
    using run calm
    by (auto simp: insert_new_version_def split: if_splits option.splits)
  show ?thesis
  proof (cases "r = 0")
    case False
    with cases wf show ?thesis by (auto intro: appended_same)
  next
    case True
    with cases have ins: "?ins = Some (tabs s')" by simp
    then have blob: "?blob = Some ?d"
      by (auto simp: insert_file_version_def bind_blob_bound split: option.splits if_splits)
    have next_n: "n = int (length ?vs) + 1"
      using insert_file_version_clash [OF wf n(1), of fid p "clock E (tick (bump s))" "?n" ?blob] ins n(2)
      by (cases "n \<le> int (length ?vs)") auto
    have ins': "insert_file_version fid p (int (length ?vs) + 1) (clock E (tick (bump s)))
        ?n (Some ?d) (tabs s) = Some (tabs s')"
      using ins unfolding blob next_n by simp
    note res = insert_file_version_next [OF wf known ins']
    with insert_file_version_frame [OF ins] cases True show ?thesis
      by (auto simp: appended_def frame_def)
  qed
qed

lemma write_known_path_outcome:
  assumes wf: "wf (tabs s)" and calm: "calm E s" and room: "room 1 (tabs s)"
    and known: "(fid, p) \<in> set (file_ids (tabs s))"
    and run: "run_state (write_known_path E fid p data sz) s = (r, s')"
  shows "appended p (bound_bytes E data sz) sz s r s'"
proof -
  let ?vs = "versions_of fid (tabs s)"
  have len: "int (length ?vs) < 2 ^ 31"
    using room versions_of_le [of fid "tabs s"] by (simp add: room_def)
  define n where "n = (if fault_at E (tick (bump s)) \<noteq> Fine then 1 else int (length ?vs) + 1)"
  have n: "1 \<le> n" "n \<le> int (length ?vs) + 1" by (simp_all add: n_def)
  have max: "column_int_null (select_max_version fid (tabs s)) = int (length ?vs)"
    using len by (simp add: select_max_version_wf [OF wf] column_int_null_def column_int_small)
  show ?thesis
  proof (cases "run_state (sq_prepare E [''file_versions'']) s")
    case (Pair ok s1)
    then have s1: "s1 = bump s" using calm by simp
    show ?thesis
    proof (cases ok)
      case False
      with run Pair s1 wf show ?thesis
        by (auto simp: write_known_path_def intro: appended_same)
    next
      case True
      with run Pair s1 calm have "run_state (insert_new_version E fid p n data sz) (bump (bump s)) = (r, s')"
        by (simp add: write_known_path_def n_def max split: if_splits)
      then have "appended p (bound_bytes E data sz) sz (bump (bump s)) r s'"
        using insert_new_version_outcome [of "bump (bump s)" E fid p n data sz r s'] wf calm known n
        by simp
      then show ?thesis by (auto simp: appended_def frame_def)
    qed
  qed
qed

lemma write_new_path_outcome:
  assumes wf: "wf (tabs s)" and calm: "calm E s" and room: "room 1 (tabs s)"
    and run: "run_state (write_new_path E p data sz) s = (r, s')"
  shows "appended p (bound_bytes E data sz) sz s r s'"
proof (cases "fault_at E (tick s) = Fine \<and> available [''file_ids''] (tabs s) \<and>
    fault_at E (tick (bump s)) = Fine \<and> insert_file_id p (tabs s) \<noteq> None")
  case False
  with run calm wf show ?thesis
    by (auto simp: write_new_path_def intro!: appended_same split: if_splits)
next
  case True
  then obtain t where t: "insert_file_id p (tabs s) = Some t" by auto
  define s1 where "s1 = (bump (bump s))\<lparr>tabs := t, last_rowid := file_ids_seq t\<rparr>"
  note ins = insert_file_id_wf [OF wf t]
  have t': "file_ids_seq t = file_ids_seq (tabs s) + 1" "file_versions t = file_versions (tabs s)"
      "\<exists>ids. file_ids t = file_ids (tabs s) @ ids" "t_tables t = t_tables (tabs s)"
      "t_views t = t_views (tabs s)" "migrations t = migrations (tabs s)"
    using t by (auto simp: insert_file_id_Some)
  have "0 \<le> file_ids_seq (tabs s)" using wf by (simp add: wf_def wf_ids_def)
  then have id: "column_int (file_ids_seq t) = file_ids_seq t"
    using room t'(1) by (simp add: room_def column_int_small)
  have "run_state (insert_new_version E (file_ids_seq t) p 1 data sz) s1 = (r, s')"
    using run calm True t id by (simp add: write_new_path_def s1_def)
  then have "appended p (bound_bytes E data sz) sz s1 r s' \<and> file_ids (tabs s') = file_ids (tabs s1) \<and>
      file_ids_seq (tabs s') = file_ids_seq (tabs s1)"
    using insert_new_version_outcome [of s1 E "file_ids_seq t" p 1 data sz r s'] ins calm
    by (simp add: s1_def)
  then show ?thesis using t' ins(2) by (auto simp: appended_def frame_def s1_def true_sizes_def)
qed

text \<open>The outcome of \<open>overlay_fs_write\<close> on every branch and under every environment.\<close>

lemma write_at_outcome:
  assumes wf: "wf (tabs s)" and calm: "calm E s" and room: "room 1 (tabs s)"
    and run: "run_state (write_at E p data sz) s = (r, s')"
  shows "appended p (bound_bytes E data sz) sz s r s'"
proof (cases "fault_at E (tick s) = Fine \<and> available [''file_ids''] (tabs s)")
  case False
  with run calm wf show ?thesis
    by (auto simp: write_at_def intro!: appended_same split: if_splits)
next
  case True
  let ?s = "bump (bump s)"
  have ids: "wf_ids (tabs s)" using wf by (simp add: wf_def)
  have lift: "appended p (bound_bytes E data sz) sz ?s r s' \<Longrightarrow> ?thesis"
    by (auto simp: appended_def frame_def)
  show ?thesis
  proof (cases "fault_at E (tick (bump s)) = Fine \<and> select_file_id p (tabs s) \<noteq> None")
    case False
    then have "run_state (write_new_path E p data sz) ?s = (r, s')"
      using run calm True by (auto simp: write_at_def split: if_splits)
    then show ?thesis
      using write_new_path_outcome [of ?s E p data sz r s'] wf calm room lift by simp
  next
    case False2: True
    then obtain fid where fid: "select_file_id p (tabs s) = Some fid" by auto
    then have known: "(fid, p) \<in> set (file_ids (tabs s))" by (simp add: select_file_id_iff [OF ids])
    then have "column_int fid = fid"
      using wf_ids_range [OF ids known] room by (simp add: room_def column_int_small)
    then have "run_state (write_known_path E fid p data sz) ?s = (r, s')"
      using run calm True False2 fid wf_ids_range [OF ids known]
      by (simp add: write_at_def Let_def)
    then show ?thesis
      using write_known_path_outcome [of ?s E fid p data sz r s'] wf calm room known lift by simp
  qed
qed

end
