(* ===== verification/Db_Read.thy ===== *)
theory Db_Read
  imports Overlay_Spec
begin

text \<open>
  The read side of hbf/db/db.c: \<open>hbf_db_read_file_from_main\<close>, \<open>hbf_db_read_file\<close>,
  \<open>hbf_db_file_exists_in_main\<close>, \<open>hbf_db_check_sqlar_table\<close>, and the proof that the four
  readers of the program agree with the history of overlay_fs.c. An empty file leaves
  \<open>*data\<close> NULL here, where \<open>overlay_fs_read\<close> allocates a byte.
\<close>

section \<open>The code\<close>

text \<open>\<open>sqlite3_bind_text\<close> where its result is checked.\<close>

definition sq_bind :: "env \<Rightarrow> bool dbm" where
  "sq_bind E = c_malloc E"

text \<open>The copy after \<open>sqlite3_step\<close>: nothing is allocated for an empty blob, and a failed
  allocation is an error only when there was something to copy.\<close>

definition copy_blob_or_null :: "env \<Rightarrow> bytes \<Rightarrow> (int \<times> outs) dbm" where
  "copy_blob_or_null E blob =
     (if length blob > 0
      then do {
        ok \<leftarrow> c_malloc E;
        ret (if ok then (0, Some blob, length blob) else (-1, None, 0))
      }
      else ret (0, None, 0))"

definition hbf_db_read_file_from_main ::
    "env \<Rightarrow> sqlite3_ptr \<Rightarrow> string option \<Rightarrow> outs option \<Rightarrow> (int \<times> outs option) dbm" where
  "hbf_db_read_file_from_main E db path outp =
     (case (db, path, outp) of
        (Main_db, Some p, Some _) \<Rightarrow> do {
          ok \<leftarrow> sq_prepare E [''latest_files''];
          if \<not> ok then ret (-1, Some (None, 0))
          else do {
            bound \<leftarrow> sq_bind E;
            if \<not> bound then ret (-1, Some (None, 0))
            else do {
              r \<leftarrow> sq_select E (select_latest_by_view p);
              (case r of
                 Step_Row blob \<Rightarrow> do { (rc, o') \<leftarrow> copy_blob_or_null E blob; ret (rc, Some o') }
               | _ \<Rightarrow> ret (-1, Some (None, 0)))
            }
          }
        }
      | _ \<Rightarrow> ret (-1, outp))"

text \<open>\<open>use_overlay\<close> is ignored by the code.\<close>

definition hbf_db_read_file ::
    "env \<Rightarrow> sqlite3_ptr \<Rightarrow> string option \<Rightarrow> int \<Rightarrow> outs option \<Rightarrow> (int \<times> outs option) dbm" where
  "hbf_db_read_file E db path use_overlay outp =
     (case (db, path, outp) of
        (Main_db, Some p, Some _) \<Rightarrow> do {
          ok \<leftarrow> sq_prepare E [''latest_files''];
          if \<not> ok then ret (-1, Some (None, 0))
          else do {
            bound \<leftarrow> sq_bind E;
            if \<not> bound then ret (-1, Some (None, 0))
            else do {
              r \<leftarrow> sq_select E (select_latest_by_view p);
              (case r of
                 Step_Row blob \<Rightarrow> do { (rc, o') \<leftarrow> copy_blob_or_null E blob; ret (rc, Some o') }
               | _ \<Rightarrow> ret (-1, Some (None, 0)))
            }
          }
        }
      | _ \<Rightarrow> ret (-1, outp))"

text \<open>A step that fails counts as "not there".\<close>

definition hbf_db_file_exists_in_main :: "env \<Rightarrow> sqlite3_ptr \<Rightarrow> string option \<Rightarrow> int dbm" where
  "hbf_db_file_exists_in_main E db path =
     (case (db, path) of
        (Main_db, Some p) \<Rightarrow> do {
          ok \<leftarrow> sq_prepare E [''latest_files''];
          if \<not> ok then ret (-1)
          else do {
            bound \<leftarrow> sq_bind E;
            if \<not> bound then ret (-1)
            else do {
              r \<leftarrow> sq_select E (select_latest_by_view p);
              ret (case r of Step_Row _ \<Rightarrow> 1 | _ \<Rightarrow> 0)
            }
          }
        }
      | _ \<Rightarrow> ret (-1))"

definition hbf_db_check_sqlar_table :: "env \<Rightarrow> sqlite3_ptr \<Rightarrow> int dbm" where
  "hbf_db_check_sqlar_table E db =
     (case db of
        Null_db \<Rightarrow> ret (-1)
      | Main_db \<Rightarrow> do {
          ok \<leftarrow> sq_prepare E [];
          if \<not> ok then ret (-1)
          else do {
            r \<leftarrow> sq_select E (\<lambda>t. if ''sqlar'' \<in> set (t_tables t) then Some () else None);
            ret (case r of Step_Row _ \<Rightarrow> 1 | _ \<Rightarrow> 0)
          }
        })"

section \<open>What a reader returns\<close>

text \<open>The file a caller sees: \<open>None\<close> on an error code, otherwise the first \<open>size\<close> bytes.\<close>

definition file_of :: "int \<times> outs option \<Rightarrow> bytes option" where
  "file_of r =
     (case r of
        (rc, Some (d, n)) \<Rightarrow>
          if rc = 0 then Some (case d of None \<Rightarrow> [] | Some b \<Rightarrow> take n b) else None
      | (rc, None) \<Rightarrow> None)"

definition has_schema :: "tables \<Rightarrow> bool" where
  "has_schema t \<longleftrightarrow>
     {''file_versions'', ''file_ids'', ''latest_files_meta'', ''migrations''} \<subseteq> set (t_tables t) \<and>
     {''latest_files'', ''latest_files_metadata''} \<subseteq> set (t_views t)"

definition healthy :: "env \<Rightarrow> conn \<Rightarrow> bool" where
  "healthy E s \<longleftrightarrow> (\<forall>n. fault_at E n = Fine) \<and> has_schema (tabs s)"

lemma healthyD:
  assumes "healthy E s"
  shows "fault_at E n = Fine" "calm E s"
    "available [''file_ids''] (tabs s)" "available [''file_versions''] (tabs s)"
    "available [''file_ids'', ''file_versions''] (tabs s)"
    "available [''file_versions'', ''file_ids''] (tabs s)"
    "available [''latest_files''] (tabs s)" "available [''migrations''] (tabs s)"
    "available [] (tabs s)"
  using assms by (auto simp: healthy_def calm_def has_schema_def available_def)

lemma healthy_bump [simp]: "healthy E (bump s) = healthy E s"
  by (simp add: healthy_def)

text \<open>Soundness on every branch and in every environment: a file that is returned is the
  last version. The connection is only read.\<close>

lemma read_by_id_sound:
  assumes "wf (tabs s)" "calm E s"
    and "run_state (overlay_fs_read E Main_db (Some p) (Some o0)) s = (r, s')"
  shows "(file_of r = None \<or> history (tabs s) p \<noteq> [] \<and> file_of r = Some (last (history (tabs s) p))) \<and>
     tabs s' = tabs s \<and> saved s' = saved s"
  using assms(3) assms(2) latest_by_id_history [OF assms(1), of p]
  by (auto simp: overlay_fs_read_def copy_blob_def file_of_def split: if_splits option.splits)

lemma read_by_view_sound:
  assumes "wf (tabs s)" "calm E s"
    and "run_state (overlay_fs_read_file E Main_db (Some p) dev (Some o0)) s = (r, s')"
  shows "(file_of r = None \<or> history (tabs s) p \<noteq> [] \<and> file_of r = Some (last (history (tabs s) p))) \<and>
     tabs s' = tabs s \<and> saved s' = saved s"
  using assms(3) assms(2) latest_by_view_history [OF assms(1), of p]
  by (auto simp: overlay_fs_read_file_def copy_blob_def file_of_def split: if_splits option.splits)

lemma db_read_sound:
  assumes "wf (tabs s)" "calm E s"
    and "run_state (hbf_db_read_file E Main_db (Some p) ov (Some o0)) s = (r, s')"
  shows "(file_of r = None \<or> history (tabs s) p \<noteq> [] \<and> file_of r = Some (last (history (tabs s) p))) \<and>
     tabs s' = tabs s \<and> saved s' = saved s"
  using assms(3) assms(2) latest_by_view_history [OF assms(1), of p]
  by (auto simp: hbf_db_read_file_def sq_bind_def copy_blob_or_null_def file_of_def
      split: if_splits option.splits)

text \<open>The buffer that comes with success is exactly as long as announced.\<close>

lemma read_file_result:
  "(\<exists>js. fst (run_state (overlay_fs_read_file E g (Some p) dev (Some (None, z))) d) = (0, Some (Some js, length js))) \<or>
   (\<exists>sz. fst (run_state (overlay_fs_read_file E g (Some p) dev (Some (None, z))) d) = (-1, Some (None, sz)))"
proof (cases g)
  case Main_db
  obtain ok d1 where 1: "run_state (sq_prepare E [''latest_files'']) d = (ok, d1)" by (rule prod.exhaust)
  obtain r d2 where 2: "run_state (sq_select E (select_latest_by_view p)) d1 = (r, d2)" by (rule prod.exhaust)
  show ?thesis
    by (cases r) (auto simp: Main_db overlay_fs_read_file_def 1 2 copy_blob_def)
qed (simp add: overlay_fs_read_file_def)

text \<open>Completeness where no call fails.\<close>

lemma read_by_id_healthy:
  assumes "wf (tabs s)" "healthy E s"
  shows "fst (run_state (overlay_fs_read E Main_db (Some p) (Some o0)) s) =
     (if history (tabs s) p = [] then (-1, Some (None, 0))
      else (0, Some (Some (last (history (tabs s) p)), length (last (history (tabs s) p)))))"
  using latest_by_id_history [OF assms(1), of p]
  by (simp add: overlay_fs_read_def copy_blob_def healthyD [OF assms(2)])

lemma read_by_view_healthy:
  assumes "wf (tabs s)" "healthy E s"
  shows "fst (run_state (overlay_fs_read_file E Main_db (Some p) dev (Some o0)) s) =
     (if history (tabs s) p = [] then (-1, Some (None, 0))
      else (0, Some (Some (last (history (tabs s) p)), length (last (history (tabs s) p)))))"
  using latest_by_view_history [OF assms(1), of p]
  by (simp add: overlay_fs_read_file_def copy_blob_def healthyD [OF assms(2)])

lemma db_read_healthy:
  assumes "wf (tabs s)" "healthy E s"
  shows "fst (run_state (hbf_db_read_file E Main_db (Some p) ov (Some o0)) s) =
     (if history (tabs s) p = [] then (-1, Some (None, 0))
      else if last (history (tabs s) p) = [] then (0, Some (None, 0))
      else (0, Some (Some (last (history (tabs s) p)), length (last (history (tabs s) p)))))"
  using latest_by_view_history [OF assms(1), of p]
  by (simp add: hbf_db_read_file_def sq_bind_def copy_blob_or_null_def healthyD [OF assms(2)])

lemma db_read_main_eq: "hbf_db_read_file_from_main E db p o0 = hbf_db_read_file E db p ov o0"
  by (simp add: hbf_db_read_file_from_main_def hbf_db_read_file_def)

end
