(* ===== verification/Schema.thy ===== *)
theory Schema
  imports Db_Read
begin

text \<open>
  hbf/db/overlay_schema.sql, the script \<open>hbf_schema_sql\<close> that \<open>hbf_db_init\<close> runs with
  \<open>sqlite3_exec\<close> on every start. Each statement is one change of the tables and can fail on
  its own; there is no transaction around them. Indexes have no effect on the rows.
\<close>

section \<open>The statements\<close>

definition create_table :: "string \<Rightarrow> tables \<Rightarrow> tables option" where
  "create_table n t = Some (if n \<in> set (t_tables t) then t else t\<lparr>t_tables := t_tables t @ [n]\<rparr>)"

definition create_view :: "string \<Rightarrow> tables \<Rightarrow> tables option" where
  "create_view n t = Some (if n \<in> set (t_views t) then t else t\<lparr>t_views := t_views t @ [n]\<rparr>)"

definition create_index :: "string \<Rightarrow> tables \<Rightarrow> tables option" where
  "create_index on t = (if on \<in> set (t_tables t) then Some t else None)"

definition bootstrap_meta :: "tables \<Rightarrow> tables option" where
  "bootstrap_meta t = Some (t\<lparr>latest_files_meta :=
     fold upsert_meta (latest_files_metadata t) (latest_files_meta t)\<rparr>)"

definition create_trigger_ai :: "tables \<Rightarrow> tables option" where
  "create_trigger_ai t = Some (t\<lparr>t_trigger := True\<rparr>)"

text \<open>The delete trigger never fires: no C code deletes a version.\<close>

definition create_trigger_ad :: "tables \<Rightarrow> tables option" where
  "create_trigger_ad t = Some t"

definition schema_sql :: "(tables \<Rightarrow> tables option) list" where
  "schema_sql =
     [create_table ''file_versions'',
      create_index ''file_versions'', create_index ''file_versions'', create_index ''file_versions'',
      create_table ''file_ids'',
      create_view ''latest_files'', create_view ''latest_files_metadata'',
      create_table ''latest_files_meta'', create_index ''latest_files_meta'',
      bootstrap_meta, create_trigger_ai, create_trigger_ad,
      create_table ''migrations'']"

text \<open>\<open>sqlite3_exec\<close> on a script: it stops at the first statement that fails.\<close>

fun sq_exec :: "env \<Rightarrow> (tables \<Rightarrow> tables option) list \<Rightarrow> bool dbm" where
  "sq_exec E [] = ret True"
| "sq_exec E (c # cs) = do {
     ok \<leftarrow> sq_change E c (\<lambda>_ r. r);
     if ok then sq_exec E cs else ret False
   }"

section \<open>What running the script does\<close>

text \<open>A database the program may find: empty, or left by an earlier run of it (the script may
  have stopped halfway, so the trigger need not be there as long as there is no version).\<close>

definition openable :: "tables \<Rightarrow> bool" where
  "openable t \<longleftrightarrow> wf (t\<lparr>t_trigger := True\<rparr>)"

lemma openable_iff: "openable t \<longleftrightarrow> wf_ids t \<and> wf_versions t \<and>
     distinct (map m_file_id (latest_files_meta t)) \<and>
     (\<forall>fid. find (\<lambda>m. m_file_id m = fid) (latest_files_meta t) = latest_meta fid t)"
  by (simp add: openable_def wf_def wf_meta_def wf_ids_def wf_versions_def versions_of_def latest_meta_def)

lemma wf_openable: "wf t \<Longrightarrow> openable t"
  by (simp add: openable_iff wf_def wf_meta_def)

lemma openable_wf: "openable t \<Longrightarrow> t_trigger t \<Longrightarrow> wf t"
  by (simp add: openable_iff wf_def wf_meta_def)

lemma openable_names [simp]:
  "openable (t\<lparr>t_tables := ns\<rparr>) = openable t" "openable (t\<lparr>t_views := ns\<rparr>) = openable t"
  "openable (t\<lparr>t_trigger := b\<rparr>) = openable t"
  by (simp_all add: openable_iff wf_ids_def wf_versions_def versions_of_def latest_meta_def)

lemma openable_empty [simp]: "openable empty_tables"
  by (simp add: openable_iff empty_tables_def wf_ids_def wf_versions_def versions_of_def latest_meta_def)

text \<open>The bootstrap finds every row of the view already there.\<close>

lemma upsert_meta_same:
  assumes "distinct (map m_file_id ms)" "m \<in> set ms"
  shows "upsert_meta m ms = ms"
proof -
  have "x = m" if "x \<in> set ms" "m_file_id x = m_file_id m" for x
    using assms that by (metis distinct_map inj_onD)
  then have "map (\<lambda>x. if m_file_id x = m_file_id m \<and> m_number x \<le> m_number m then m else x) ms = ms"
    by (intro map_idI) auto
  moreover have "list_ex (\<lambda>x. m_file_id x = m_file_id m) ms" using assms(2) by (auto simp: list_ex_iff)
  ultimately show ?thesis by (simp add: upsert_meta_def)
qed

lemma fold_upsert_meta_same:
  "distinct (map m_file_id ms) \<Longrightarrow> set xs \<subseteq> set ms \<Longrightarrow> fold upsert_meta xs ms = ms"
  by (induction xs) (simp_all add: upsert_meta_same)

lemma bootstrap_openable:
  assumes "openable t"
  shows "bootstrap_meta t = Some t"
proof -
  let ?t = "t\<lparr>t_trigger := True\<rparr>"
  have "set (latest_files_metadata t) = set (latest_files_meta t)"
    using meta_set_latest [of ?t] assms
    by (simp add: openable_def latest_files_metadata_def latest_files_def)
  then show ?thesis
    using fold_upsert_meta_same [of "latest_files_meta t" "latest_files_metadata t"] assms
    by (simp add: bootstrap_meta_def openable_iff)
qed

text \<open>A statement that only adds to the schema. Every statement of the script is one, run on
  a database the program may find.\<close>

definition grows :: "tables \<Rightarrow> tables \<Rightarrow> bool" where
  "grows t t' \<longleftrightarrow> openable t' \<and> history t' = history t \<and> file_ids t' = file_ids t \<and>
     file_ids_seq t' = file_ids_seq t \<and> file_versions t' = file_versions t \<and>
     migrations t' = migrations t \<and> set (t_tables t) \<subseteq> set (t_tables t') \<and>
     set (t_views t) \<subseteq> set (t_views t') \<and> (t_trigger t \<longrightarrow> t_trigger t')"

lemma grows_refl: "openable t \<Longrightarrow> grows t t"
  by (simp add: grows_def)

lemma grows_trans: "grows a b \<Longrightarrow> grows b c \<Longrightarrow> grows a c"
  by (auto simp: grows_def)

lemma history_rows:
  "file_ids t' = file_ids t \<Longrightarrow> file_versions t' = file_versions t \<Longrightarrow> history t' = history t"
  by (rule ext) (simp add: history_def versions_of_def select_file_id_def split: option.splits)

lemma create_table_grows:
  "openable t \<Longrightarrow> \<exists>t'. create_table n t = Some t' \<and> grows t t' \<and> n \<in> set (t_tables t')"
  by (cases "n \<in> set (t_tables t)") (auto simp: create_table_def grows_def intro: history_rows)

lemma create_view_grows:
  "openable t \<Longrightarrow> \<exists>t'. create_view n t = Some t' \<and> grows t t' \<and> n \<in> set (t_views t')"
  by (cases "n \<in> set (t_views t)") (auto simp: create_view_def grows_def intro: history_rows)

lemma create_trigger_grows:
  "openable t \<Longrightarrow> \<exists>t'. create_trigger_ai t = Some t' \<and> grows t t' \<and> t_trigger t'"
  by (auto simp: create_trigger_ai_def grows_def intro: history_rows)

lemma same_grows:
  "create_index n t = Some t' \<Longrightarrow> openable t \<Longrightarrow> grows t t'"
  "bootstrap_meta t = Some t' \<Longrightarrow> openable t \<Longrightarrow> grows t t'"
  "create_trigger_ad t = Some t' \<Longrightarrow> openable t \<Longrightarrow> grows t t'"
  by (auto simp: create_index_def bootstrap_openable create_trigger_ad_def grows_refl split: if_splits)

lemma schema_stmt_grows:
  assumes "c \<in> set schema_sql" "openable t" "c t = Some t'"
  shows "grows t t'"
proof -
  have "(\<exists>n. c = create_table n \<or> c = create_view n \<or> c = create_index n) \<or>
      c = bootstrap_meta \<or> c = create_trigger_ai \<or> c = create_trigger_ad"
    using assms(1) unfolding schema_sql_def by (simp only: list.set insert_iff empty_iff) blast
  then show ?thesis
    using assms(2,3) create_table_grows [OF assms(2)] create_view_grows [OF assms(2)]
      create_trigger_grows [OF assms(2)] same_grows
    by (metis option.inject)
qed

lemma sq_exec_grows:
  "set cs \<subseteq> set schema_sql \<Longrightarrow> openable (tabs s) \<Longrightarrow> saved s = None \<Longrightarrow>
   run_state (sq_exec E cs) s = (ok, s') \<Longrightarrow>
   grows (tabs s) (tabs s') \<and> saved s' = None \<and> last_rowid s' = last_rowid s"
proof (induction cs arbitrary: s)
  case Nil
  then show ?case by (simp add: grows_refl)
next
  case (Cons c cs)
  have calm: "calm E s" using Cons.prems(3) by (rule calm_no_tx)
  show ?case
  proof (cases "if fault_at E (tick s) \<noteq> Fine then None else c (tabs s)")
    case None
    then have "ok = False \<and> s' = bump s"
      using Cons.prems(4) calm by (simp split: if_splits)
    with Cons.prems(2,3) show ?thesis by (simp add: grows_refl)
  next
    case (Some t)
    then have step: "grows (tabs s) t"
      using Cons.prems(1,2) by (auto split: if_splits intro: schema_stmt_grows)
    let ?s = "(bump s)\<lparr>tabs := t\<rparr>"
    have "run_state (sq_exec E cs) ?s = (ok, s')"
      using Cons.prems(4) calm Some by (simp add: bump_def)
    moreover have "openable t" using step by (simp add: grows_def)
    ultimately have "grows t (tabs s') \<and> saved s' = None \<and> last_rowid s' = last_rowid s"
      using Cons.IH [of ?s] Cons.prems(1,3) by simp
    then show ?thesis using step grows_trans by blast
  qed
qed

lemma sq_exec_pure:
  "saved s = None \<Longrightarrow> run_state (sq_exec E cs) s = (True, s') \<Longrightarrow>
     fold (\<lambda>c r. Option.bind r c) cs (Some (tabs s)) = Some (tabs s')"
proof (induction cs arbitrary: s)
  case Nil
  then show ?case by simp
next
  case (Cons c cs)
  have calm: "calm E s" using Cons.prems(1) by (rule calm_no_tx)
  show ?case
  proof (cases "if fault_at E (tick s) \<noteq> Fine then None else c (tabs s)")
    case None
    with Cons.prems calm show ?thesis by (simp split: if_splits)
  next
    case (Some t)
    then show ?thesis
      using Cons.IH [of "(bump s)\<lparr>tabs := t\<rparr>"] Cons.prems calm
      by (simp add: bump_def split: if_splits)
  qed
qed

lemma schema_sql_result:
  assumes t: "openable t"
  shows "\<exists>t'. fold (\<lambda>c r. Option.bind r c) schema_sql (Some t) = Some t' \<and> has_schema t' \<and> t_trigger t'"
proof -
  obtain a where a: "create_table ''file_versions'' t = Some a" "grows t a" "''file_versions'' \<in> set (t_tables a)"
    using create_table_grows [OF t] by blast
  then have "openable a" by (simp add: grows_def)
  from create_table_grows [OF this] obtain b where
    b: "create_table ''file_ids'' a = Some b" "grows a b" "''file_ids'' \<in> set (t_tables b)" by blast
  then have "openable b" by (simp add: grows_def)
  from create_view_grows [OF this] obtain c where
    c: "create_view ''latest_files'' b = Some c" "grows b c" "''latest_files'' \<in> set (t_views c)" by blast
  then have "openable c" by (simp add: grows_def)
  from create_view_grows [OF this] obtain d where
    d: "create_view ''latest_files_metadata'' c = Some d" "grows c d"
      "''latest_files_metadata'' \<in> set (t_views d)" by blast
  then have "openable d" by (simp add: grows_def)
  from create_table_grows [OF this] obtain e where
    e: "create_table ''latest_files_meta'' d = Some e" "grows d e"
      "''latest_files_meta'' \<in> set (t_tables e)" by blast
  then have e': "openable e" by (simp add: grows_def)
  from create_trigger_grows [OF e'] obtain f where
    f: "create_trigger_ai e = Some f" "grows e f" "t_trigger f" by blast
  then have "openable f" by (simp add: grows_def)
  from create_table_grows [OF this] obtain g where
    g: "create_table ''migrations'' f = Some g" "grows f g" "''migrations'' \<in> set (t_tables g)" by blast
  have "fold (\<lambda>c r. Option.bind r c) schema_sql (Some t) = Some g"
    using a(1,3) b(1) c(1) d(1) e(1,3) f(1) g(1)
    by (simp add: schema_sql_def create_index_def bootstrap_openable [OF e'] create_trigger_ad_def)
  moreover have "has_schema g \<and> t_trigger g"
  proof -
    have fg: "grows e g" "grows d g" "grows c g" "grows b g" "grows a g"
      using f(2) e(2) d(2) c(2) b(2) grows_trans g(2) by blast+
    have keep: "n \<in> set (t_tables x) \<Longrightarrow> grows x g \<Longrightarrow> n \<in> set (t_tables g)"
      "n \<in> set (t_views x) \<Longrightarrow> grows x g \<Longrightarrow> n \<in> set (t_views g)" for n x
      by (auto simp: grows_def)
    have "t_trigger g" using f(3) g(2) by (simp add: grows_def)
    then show ?thesis
      using keep(1) [OF a(3) fg(5)] keep(1) [OF b(3) fg(4)] keep(2) [OF c(3) fg(3)]
        keep(2) [OF d(3) fg(2)] keep(1) [OF e(3) fg(1)] g(3)
      by (simp add: has_schema_def)
  qed
  ultimately show ?thesis by blast
qed

section \<open>A fresh database\<close>

definition schema_tables :: tables where
  "schema_tables = empty_tables\<lparr>
     t_tables := [''file_versions'', ''file_ids'', ''latest_files_meta'', ''migrations''],
     t_views := [''latest_files'', ''latest_files_metadata''], t_trigger := True\<rparr>"

definition quiet_env :: env where
  "quiet_env = \<lparr>fault_at = \<lambda>_. Fine, clock = \<lambda>_. 0, max_len = 1000,
     negative_blob = \<lambda>_ _. None, open_error_handle = \<lambda>_. True\<rparr>"

definition fresh_conn :: conn where
  "fresh_conn = \<lparr>tabs = schema_tables, saved = None, last_rowid = 0, tick = 0, open_count = 0\<rparr>"

lemma schema_sql_empty: "fold (\<lambda>c r. Option.bind r c) schema_sql (Some empty_tables) = Some schema_tables"
  by (simp add: schema_sql_def create_table_def create_view_def create_index_def bootstrap_meta_def
      create_trigger_ai_def create_trigger_ad_def schema_tables_def empty_tables_def
      latest_files_metadata_def latest_files_def)

lemma fresh_conn_simps [simp]:
  "tabs fresh_conn = schema_tables" "saved fresh_conn = None" "tick fresh_conn = 0"
  "open_count fresh_conn = 0"
  by (simp_all add: fresh_conn_def)

lemma schema_tables_wf [simp]: "wf schema_tables"
proof (rule openable_wf)
  show "openable schema_tables" unfolding schema_tables_def by simp
qed (simp add: schema_tables_def)

lemma schema_tables_simps [simp]:
  "history schema_tables p = []" "file_ids schema_tables = []" "file_versions schema_tables = []"
  "file_ids_seq schema_tables = 0" "migrations schema_tables = []"
  by (simp_all add: history_def schema_tables_def empty_tables_def select_file_id_def)

lemma has_schema_tables [simp]: "has_schema schema_tables"
  by (simp add: has_schema_def schema_tables_def)

lemma quiet_env_simps [simp]:
  "fault_at quiet_env n = Fine" "clock quiet_env n = 0" "max_len quiet_env = 1000"
  by (simp_all add: quiet_env_def)

lemma fresh_healthy [simp]: "healthy quiet_env fresh_conn"
  by (simp add: healthy_def)

lemma fresh_calm [simp]: "calm E fresh_conn"
  by (simp add: calm_no_tx)

lemma fresh_room [simp]: "k < 2 ^ 31 \<Longrightarrow> room k schema_tables"
  by (simp add: room_def)

end
