(* ===== verification/Tx_Rollback.thy ===== *)
theory Tx_Rollback
  imports Overlay_Fs
begin

text \<open>
  What an automatic rollback by SQLite can do to a program that does not look for it. A run in
  an environment \<open>E\<close> goes like the run in \<open>statement_faults E\<close>, where the same calls fail but
  no transaction is rolled back under them, or the transaction that was open at the start is
  gone at the end. The relation \<open>steady\<close> between the two runs is proved for the primitives and
  composed along the code; it also says that the count of open handles stays.
\<close>

section \<open>The relation\<close>

definition statement_faults :: "env \<Rightarrow> env" where
  "statement_faults E =
     E\<lparr>fault_at := \<lambda>n. if fault_at E n = Tx_Fault then Stmt_Fault else fault_at E n\<rparr>"

definition lost :: "conn \<Rightarrow> conn \<Rightarrow> bool" where
  "lost s s' \<longleftrightarrow> saved s \<noteq> None \<and> saved s' = None"

definition steady :: "'a dbm \<Rightarrow> 'a dbm \<Rightarrow> bool" where
  "steady m m' \<longleftrightarrow> (\<forall>s.
     (saved s = None \<longrightarrow> saved (snd (run_state m s)) = None) \<and>
     open_count (snd (run_state m s)) = open_count s \<and>
     (run_state m s = run_state m' s \<or> lost s (snd (run_state m s))))"

named_theorems steady_intros \<open>composition rules of \<open>steady\<close>, one per construct of the code\<close>

lemma statement_faults_simps [simp]:
  "fault_at (statement_faults E) n = (if fault_at E n = Tx_Fault then Stmt_Fault else fault_at E n)"
  "clock (statement_faults E) = clock E" "max_len (statement_faults E) = max_len E"
  "negative_blob (statement_faults E) = negative_blob E"
  "open_error_handle (statement_faults E) = open_error_handle E"
  by (simp_all add: statement_faults_def)

lemma statement_faults_calm [simp]: "calm (statement_faults E) s"
  by (simp add: calm_def)

lemma steadyD:
  assumes "steady m m'" "run_state m s = (r, s')"
  shows "saved s = None \<Longrightarrow> saved s' = None" and "open_count s' = open_count s"
    and "run_state m' s = (r, s') \<or> lost s s'"
  using assms unfolding steady_def by (metis snd_conv)+

section \<open>Composition\<close>

lemma steady_ret [steady_intros]: "steady (ret x) (ret x)"
  by (simp add: steady_def)

lemma steady_get [steady_intros]: "steady State_Monad.get State_Monad.get"
  by (simp add: steady_def State_Monad.get_def)

lemma steady_bind [steady_intros]:
  assumes m: "steady m m'" and f: "\<And>x. steady (f x) (f' x)"
  shows "steady (m \<bind> f) (m' \<bind> f')"
  unfolding steady_def
proof (rule allI)
  fix s
  obtain x s1 where x: "run_state m s = (x, s1)" by (rule prod.exhaust)
  obtain y s2 where y: "run_state (f x) s1 = (y, s2)" by (rule prod.exhaust)
  note m1 = steadyD [OF m x] and f1 = steadyD [OF f y]
  have "run_state (m' \<bind> f') s = (y, s2) \<or> lost s s2"
    using m1(3) f1(1,3) m1(1) x by (cases "saved s = None"; cases "saved s1 = None") (auto simp: lost_def)
  then show "(saved s = None \<longrightarrow> saved (snd (run_state (m \<bind> f) s)) = None) \<and>
      open_count (snd (run_state (m \<bind> f) s)) = open_count s \<and>
      (run_state (m \<bind> f) s = run_state (m' \<bind> f') s \<or> lost s (snd (run_state (m \<bind> f) s)))"
    using x y m1(1,2) f1(1,2) by auto
qed

lemma steady_if [steady_intros]:
  "(b \<Longrightarrow> steady m m') \<Longrightarrow> (\<not> b \<Longrightarrow> steady n n') \<Longrightarrow> steady (if b then m else n) (if b then m' else n')"
  by simp

lemma steady_option [steady_intros]:
  "steady m m' \<Longrightarrow> (\<And>x. steady (f x) (f' x)) \<Longrightarrow>
     steady (case z of None \<Rightarrow> m | Some x \<Rightarrow> f x) (case z of None \<Rightarrow> m' | Some x \<Rightarrow> f' x)"
  by (cases z) simp_all

lemma steady_step [steady_intros]:
  "(\<And>x. steady (f x) (f' x)) \<Longrightarrow> steady m m' \<Longrightarrow> steady n n' \<Longrightarrow>
     steady (case z of Step_Row x \<Rightarrow> f x | Step_Done \<Rightarrow> m | Step_Error \<Rightarrow> n)
       (case z of Step_Row x \<Rightarrow> f' x | Step_Done \<Rightarrow> m' | Step_Error \<Rightarrow> n')"
  by (cases z) simp_all

lemma steady_prod [steady_intros]:
  "(\<And>x y. steady (f x y) (f' x y)) \<Longrightarrow>
     steady (case z of (x, y) \<Rightarrow> f x y) (case z of (x, y) \<Rightarrow> f' x y)"
  by (cases z) simp

section \<open>The primitives\<close>

abbreviation steady_in :: "env \<Rightarrow> (env \<Rightarrow> 'a dbm) \<Rightarrow> bool" where
  "steady_in E m \<equiv> steady (m E) (m (statement_faults E))"

lemma steady_malloc [steady_intros]: "steady_in E c_malloc"
  by (simp add: steady_def)

text \<open>Any call that only looks at whether it failed.\<close>

lemma steady_call:
  assumes "\<And>f. f \<noteq> Fine \<Longrightarrow> k f = k Stmt_Fault" "\<And>f. steady (k f) (k f)"
  shows "steady (next_call E \<bind> k) (next_call (statement_faults E) \<bind> k)"
  unfolding steady_def
proof (rule allI)
  fix s
  obtain x s1 where x: "run_state (next_call E) s = (x, s1)" by (rule prod.exhaust)
  obtain y s2 where y: "run_state (k x) s1 = (y, s2)" by (rule prod.exhaust)
  note k1 = steadyD [OF assms(2) y]
  have c: "saved s = None \<longrightarrow> saved s1 = None" "open_count s1 = open_count s"
    using x by (auto simp: next_call_def Let_def split: if_splits option.splits)
  have "run_state (next_call (statement_faults E) \<bind> k) s = (y, s2) \<or> lost s s2"
  proof (cases "x = Tx_Fault \<and> saved s \<noteq> None")
    case True
    then have "saved s1 = None" using x by (auto simp: next_call_def Let_def split: option.splits)
    then show ?thesis using k1(1) True by (simp add: lost_def)
  next
    case False
    then have "run_state (next_call (statement_faults E)) s = (if x = Fine then Fine else Stmt_Fault, s1)"
      using x by (cases x) (auto simp: next_call_def Let_def split: if_splits option.splits)
    then show ?thesis using y assms(1) [of x] by (cases "x = Fine") simp_all
  qed
  then show "(saved s = None \<longrightarrow> saved (snd (run_state (next_call E \<bind> k) s)) = None) \<and>
      open_count (snd (run_state (next_call E \<bind> k) s)) = open_count s \<and>
      (run_state (next_call E \<bind> k) s = run_state (next_call (statement_faults E) \<bind> k) s \<or>
       lost s (snd (run_state (next_call E \<bind> k) s)))"
    using x y c k1(1,2) by auto
qed

lemma steady_same:
  "(\<And>s. saved s = None \<Longrightarrow> saved (snd (run_state m s)) = None) \<Longrightarrow>
   (\<And>s. open_count (snd (run_state m s)) = open_count s) \<Longrightarrow> steady m m"
  by (simp add: steady_def)

lemma steady_prepare [steady_intros]: "steady_in E (\<lambda>E. sq_prepare E needs)"
  unfolding sq_prepare_def by (rule steady_call) (auto intro: steady_same)

lemma steady_select [steady_intros]: "steady_in E (\<lambda>E. sq_select E q)"
  unfolding sq_select_def by (rule steady_call) (auto intro: steady_same)

lemma steady_change [steady_intros]: "steady_in E (\<lambda>E. sq_change E upd rowid)"
  unfolding sq_change_def
  by (rule steady_call) (auto intro!: steady_same split: option.splits)

lemma steady_commit [steady_intros]: "steady_in E sq_commit"
  unfolding sq_commit_def by (rule steady_call) (auto intro!: steady_same)

lemma steady_rollback [steady_intros]: "steady_in E sq_rollback"
  unfolding sq_rollback_def by (rule steady_call) (auto intro!: steady_same split: option.splits)

section \<open>Single calls in any environment\<close>

text \<open>A call that works, one that fails, and a query under which the transaction is rolled back.\<close>

lemma fine_steps:
  assumes "fault_at E (tick s) = Fine"
  shows "run_state (sq_prepare E needs) s = (available needs (tabs s), bump s)"
    and "run_state (sq_select E q) s = (case q (tabs s) of None \<Rightarrow> Step_Done | Some r \<Rightarrow> Step_Row r, bump s)"
    and "run_state (sq_change E upd rowid) s =
     (case upd (tabs s) of None \<Rightarrow> (False, bump s)
      | Some t \<Rightarrow> (True, (bump s)\<lparr>tabs := t, last_rowid := rowid t (last_rowid s)\<rparr>))"
    and "run_state (sq_begin E) s =
     (if saved s = None then (True, (bump s)\<lparr>saved := Some (tabs s)\<rparr>) else (False, bump s))"
    and "run_state (sq_commit E) s =
     (if saved s \<noteq> None then (True, (bump s)\<lparr>saved := None\<rparr>) else (False, bump s))"
proof -
  have "run_state (next_call E) s = (Fine, bump s)"
    using assms by (simp add: next_call_def bump_def Let_def)
  then show "run_state (sq_prepare E needs) s = (available needs (tabs s), bump s)"
    and "run_state (sq_select E q) s = (case q (tabs s) of None \<Rightarrow> Step_Done | Some r \<Rightarrow> Step_Row r, bump s)"
    and "run_state (sq_change E upd rowid) s =
     (case upd (tabs s) of None \<Rightarrow> (False, bump s)
      | Some t \<Rightarrow> (True, (bump s)\<lparr>tabs := t, last_rowid := rowid t (last_rowid s)\<rparr>))"
    and "run_state (sq_begin E) s =
     (if saved s = None then (True, (bump s)\<lparr>saved := Some (tabs s)\<rparr>) else (False, bump s))"
    and "run_state (sq_commit E) s =
     (if saved s \<noteq> None then (True, (bump s)\<lparr>saved := None\<rparr>) else (False, bump s))"
    by (simp_all add: sq_prepare_def sq_select_def sq_change_def sq_begin_def sq_commit_def available_def
        split: option.splits)
qed

lemma tx_fault_select:
  "fault_at E (tick s) = Tx_Fault \<Longrightarrow> saved s = Some t \<Longrightarrow>
     run_state (sq_select E q) s = (Step_Error, (bump s)\<lparr>tabs := t, saved := None\<rparr>)"
  by (simp add: sq_select_def next_call_def bump_def Let_def)

lemma failed_steps:
  assumes "fault_at E (tick s) \<noteq> Fine"
  shows "\<not> fst (run_state (sq_prepare E needs) s)" and "\<not> fst (run_state (sq_change E upd rowid) s)"
    and "\<not> fst (run_state (sq_begin E) s)" and "\<not> fst (run_state (sq_commit E) s)"
proof -
  obtain f s1 where "run_state (next_call E) s = (f, s1)" "f \<noteq> Fine"
    using assms by (simp add: next_call_def Let_def)
  then show "\<not> fst (run_state (sq_prepare E needs) s)" "\<not> fst (run_state (sq_change E upd rowid) s)"
    "\<not> fst (run_state (sq_begin E) s)" "\<not> fst (run_state (sq_commit E) s)"
    by (simp_all add: sq_prepare_def sq_change_def sq_begin_def sq_commit_def)
qed

section \<open>overlay_fs.c\<close>

lemma bind_blob_faults [simp]: "bind_blob (statement_faults E) = bind_blob E"
  by (intro ext) (simp add: bind_blob_def Let_def)

lemma steady_write_at [steady_intros]: "steady_in E (\<lambda>E. write_at E p data sz)"
  unfolding write_at_def write_new_path_def write_known_path_def insert_new_version_def Let_def
    bind_blob_faults statement_faults_simps
  by (intro steady_intros)

lemma steady_overlay_fs_write [steady_intros]: "steady_in E (\<lambda>E. overlay_fs_write E db path data sz)"
  unfolding overlay_fs_write_def
  by (cases db; cases path) (auto intro: steady_intros)

lemma steady_check_schema [steady_intros]: "steady_in E overlay_fs_check_schema"
  unfolding overlay_fs_check_schema_def by (intro steady_intros)

end
