(* ===== verification/Store_Props.thy ===== *)
theory Store_Props
  imports Schema Tx_Rollback
begin

text \<open>
  The properties of the versioned file system: the model of the C functions is a
  \<open>version_store\<close> for each of its readers, and the statements about single calls and
  sequences of calls that follow.
\<close>

section \<open>The C functions are a version store\<close>

definition store_inv :: "env \<Rightarrow> nat \<Rightarrow> conn \<Rightarrow> bool" where
  "store_inv E k s \<longleftrightarrow> wf (tabs s) \<and> room k (tabs s) \<and> calm E s"

abbreviation put_file :: "env \<Rightarrow> string \<Rightarrow> bytes \<Rightarrow> conn \<Rightarrow> int \<times> conn" where
  "put_file E p d s \<equiv> run_state (overlay_fs_write E Main_db (Some p) (Some d) (length d)) s"

abbreviation get_by_id :: "env \<Rightarrow> string \<Rightarrow> conn \<Rightarrow> bytes option" where
  "get_by_id E p s \<equiv> file_of (fst (run_state (overlay_fs_read E Main_db (Some p) (Some (None, 0))) s))"

abbreviation get_by_view :: "env \<Rightarrow> string \<Rightarrow> conn \<Rightarrow> bytes option" where
  "get_by_view E p s \<equiv>
     file_of (fst (run_state (overlay_fs_read_file E Main_db (Some p) 1 (Some (None, 0))) s))"

abbreviation get_by_db :: "env \<Rightarrow> string \<Rightarrow> conn \<Rightarrow> bytes option" where
  "get_by_db E p s \<equiv>
     file_of (fst (run_state (hbf_db_read_file E Main_db (Some p) 1 (Some (None, 0))) s))"

lemma overlay_write_outcome:
  assumes "wf (tabs s)" "calm E s" "room 1 (tabs s)"
    and "run_state (overlay_fs_write E Main_db (Some p) (Some data) sz) s = (r, s')"
  shows "appended p (bound_bytes E data sz) sz s r s'"
  using write_at_outcome [OF assms(1-3), of p data sz r s'] assms(4) by (simp add: overlay_fs_write_def)

lemma store_inv_put:
  assumes "store_inv E (Suc k) s" "put_file E p d s = (r, s')"
  shows "store_inv E k s' \<and> appended p (bound_bytes E d (length d)) (length d) s r s'"
proof -
  have pre: "wf (tabs s)" "calm E s" "room (Suc k) (tabs s)" using assms(1) by (simp_all add: store_inv_def)
  then have "appended p (bound_bytes E d (length d)) (length d) s r s'"
    using overlay_write_outcome [of s E p d "length d" r s'] roomD [of "Suc k" "tabs s" 1] assms(2) by simp
  with pre show ?thesis
    by (auto simp: store_inv_def appended_def intro: frame_calm frame_room)
qed

abbreviation fits_int :: "bytes \<Rightarrow> bool" where
  "fits_int d \<equiv> length d < 2 ^ 31"

interpretation log: version_log "put_file E" "\<lambda>s. history (tabs s)" "store_inv E" fits_int for E
proof
  fix k s p d r s'
  assume "store_inv E (Suc k) s" "put_file E p d s = (r, s')"
  note out = store_inv_put [OF this]
  show "store_inv E k s'" using out by blast
  show "\<exists>d'. (fits_int d \<longrightarrow> d' = d) \<and> history (tabs s') = (history (tabs s))(p := history (tabs s) p @ [d'])"
    if "0 \<le> r"
    using out that by (intro exI [of _ "bound_bytes E d (length d)"]) (auto simp: appended_def)
  show "history (tabs s') = history (tabs s)" if "r < 0"
    using out that by (auto simp: appended_def)
next
  show "store_inv E k s" if "store_inv E (Suc k) s" for k s
    using that by (auto simp: store_inv_def intro: roomD)
qed

interpretation by_id: version_store "put_file E" "\<lambda>s. history (tabs s)" "store_inv E"
  fits_int "get_by_id E" "healthy E" for E
proof
  fix k s p
  assume "store_inv E k s"
  then have pre: "wf (tabs s)" "calm E s" by (simp_all add: store_inv_def)
  show "history (tabs s) p \<noteq> [] \<and> d = last (history (tabs s) p)" if "get_by_id E p s = Some d" for d
    using read_by_id_sound [OF pre surjective_pairing, of p "(None, 0)"] that by auto
  show "get_by_id E p s \<noteq> None" if "healthy E s" "history (tabs s) p \<noteq> []"
    using read_by_id_healthy [OF pre(1) that(1), of p "(None, 0)"] that(2) by (simp add: file_of_def)
qed

interpretation by_view: version_store "put_file E" "\<lambda>s. history (tabs s)" "store_inv E"
  fits_int "get_by_view E" "healthy E" for E
proof
  fix k s p
  assume "store_inv E k s"
  then have pre: "wf (tabs s)" "calm E s" by (simp_all add: store_inv_def)
  show "history (tabs s) p \<noteq> [] \<and> d = last (history (tabs s) p)" if "get_by_view E p s = Some d" for d
    using read_by_view_sound [OF pre surjective_pairing, of p 1 "(None, 0)"] that by auto
  show "get_by_view E p s \<noteq> None" if "healthy E s" "history (tabs s) p \<noteq> []"
    using read_by_view_healthy [OF pre(1) that(1), of p 1 "(None, 0)"] that(2) by (simp add: file_of_def)
qed

interpretation by_db: version_store "put_file E" "\<lambda>s. history (tabs s)" "store_inv E"
  fits_int "get_by_db E" "healthy E" for E
proof
  fix k s p
  assume "store_inv E k s"
  then have pre: "wf (tabs s)" "calm E s" by (simp_all add: store_inv_def)
  show "history (tabs s) p \<noteq> [] \<and> d = last (history (tabs s) p)" if "get_by_db E p s = Some d" for d
    using db_read_sound [OF pre surjective_pairing, of p 1 "(None, 0)"] that by auto
  show "get_by_db E p s \<noteq> None" if "healthy E s" "history (tabs s) p \<noteq> []"
    using db_read_healthy [OF pre(1) that(1), of p 1 "(None, 0)"] that(2)
    by (simp add: file_of_def split: if_splits)
qed

section \<open>Writes that must succeed\<close>

lemma healthy_frame: "healthy E s \<Longrightarrow> frame s s' \<Longrightarrow> healthy E s'"
  by (simp add: healthy_def has_schema_def frame_def)

lemma insert_new_version_healthy:
  assumes "wf (tabs s)" "healthy E s" "length d \<le> max_len E" "length d < 2 ^ 31"
    and "n = int (length (versions_of fid (tabs s))) + 1"
  shows "fst (run_state (insert_new_version E fid p n d (length d)) s) = 0"
proof -
  have b: "(if length d = 0 then Some [] else bind_blob E d (length d)) = Some d"
    using assms(3,4) by (simp add: bind_blob_small)
  obtain t where
    "insert_file_version fid p n (clock E (Suc (tick s))) (column_int64 (int (length d))) (Some d) (tabs s) = Some t"
    using insert_file_version_fresh [OF assms(1)] assms(5) by blast
  then show ?thesis
    by (simp only: insert_new_version_def b) (simp add: healthyD [OF assms(2)])
qed

lemma put_healthy:
  assumes inv: "store_inv E (Suc k) s" and E: "healthy E s"
    and len: "length d \<le> max_len E" "length d < 2 ^ 31"
  shows "\<exists>s'. put_file E p d s = (0, s') \<and> store_inv E k s' \<and> healthy E s'"
proof -
  have wf: "wf (tabs s)" and room: "room (Suc k) (tabs s)" using inv by (simp_all add: store_inv_def)
  have ids: "wf_ids (tabs s)" using wf by (simp add: wf_def)
  have seq: "0 \<le> file_ids_seq (tabs s)" using ids by (simp add: wf_ids_def)
  have "fst (put_file E p d s) = 0"
  proof (cases "select_file_id p (tabs s)")
    case None
    then have "p \<notin> snd ` set (file_ids (tabs s))" by (simp add: select_file_id_None)
    then obtain t where t: "insert_file_id p (tabs s) = Some t"
      using room by (auto simp: insert_file_id_def room_def)
    note ins = insert_file_id_wf [OF wf t]
    define s1 where "s1 = (bump (bump (bump (bump s))))\<lparr>tabs := t, last_rowid := file_ids_seq t\<rparr>"
    have t': "file_ids_seq t = file_ids_seq (tabs s) + 1" "t_tables t = t_tables (tabs s)"
        "t_views t = t_views (tabs s)"
      using t by (auto simp: insert_file_id_Some)
    have id: "column_int (file_ids_seq t) = file_ids_seq t"
      using room t'(1) seq by (simp add: room_def column_int_small)
    have "healthy E s1" using E t' by (simp add: healthy_def has_schema_def s1_def)
    then have "fst (run_state (insert_new_version E (file_ids_seq t) p 1 d (length d)) s1) = 0"
      using ins len by (intro insert_new_version_healthy) (simp_all add: s1_def)
    then show ?thesis
      by (simp add: overlay_fs_write_def write_at_def write_new_path_def healthyD [OF E] None t id s1_def Let_def)
  next
    case (Some fid)
    then have known: "(fid, p) \<in> set (file_ids (tabs s))" by (simp add: select_file_id_iff [OF ids])
    then have fid: "column_int fid = fid" "0 \<le> fid"
      using wf_ids_range [OF ids known] room by (simp_all add: room_def column_int_small)
    have "int (length (versions_of fid (tabs s))) < 2 ^ 31"
      using room versions_of_le [of fid "tabs s"] by (simp add: room_def)
    then have max: "column_int_null (select_max_version fid (tabs s)) = int (length (versions_of fid (tabs s)))"
      by (simp add: select_max_version_wf [OF wf] column_int_null_def column_int_small)
    define s1 where "s1 = bump (bump (bump (bump s)))"
    have "fst (run_state (insert_new_version E fid p
        (int (length (versions_of fid (tabs s))) + 1) d (length d)) s1) = 0"
      using wf E len by (intro insert_new_version_healthy) (simp_all add: s1_def)
    then show ?thesis
      using fid by (simp add: overlay_fs_write_def write_at_def write_known_path_def healthyD [OF E]
          Some max s1_def Let_def)
  qed
  then obtain s' where s': "put_file E p d s = (0, s')" by (metis prod.collapse)
  then show ?thesis using store_inv_put [OF inv s'] E by (auto simp: appended_def intro: healthy_frame)
qed

lemma fresh_store_inv: "k < 2 ^ 31 \<Longrightarrow> store_inv E k fresh_conn"
  by (simp add: store_inv_def)

lemma write_list_runs:
  assumes "store_inv E (length es) s" "healthy E s"
    and "\<forall>(p, d) \<in> set es. length d \<le> max_len E \<and> length d < 2 ^ 31"
  shows "\<exists>s'. write_list (put_file E) es s = (0, s') \<and> healthy E s'"
  using assms
proof (induction es arbitrary: s)
  case Nil
  then show ?case by simp
next
  case (Cons e es)
  obtain p d where e: "e = (p, d)" by (cases e)
  obtain s1 where s1: "put_file E p d s = (0, s1)" "store_inv E (length es) s1" "healthy E s1"
    using put_healthy [of E "length es" s d p] Cons.prems e by auto
  then obtain s' where "write_list (put_file E) es s1 = (0, s')" "healthy E s'"
    using Cons.IH Cons.prems(3) by auto
  with s1 e show ?case by simp
qed

section \<open>Properties\<close>

text \<open>
  C8. One write, whatever its arguments and whatever calls of SQLite or \<open>malloc\<close> fail under
  it, has one of two outcomes, unless SQLite itself rolls back a transaction that was open
  around it: it returns 0 and appends one version to its path, leaving the history of every
  other path alone, or it returns -1 and no history changes. The version holds the first
  \<open>size\<close> bytes of the data, exactly, for every size below 2^31, and its size column is right.
  For a larger size it holds what the cast \<open>(int)size\<close> makes of it: a shorter prefix where the
  cast is not negative. Either way the tables stay well-formed, so versions stay numbered
  1, 2, 3 and so on and the latest-metadata table stays exact.
\<close>

theorem overlay_fs_write_contract:
  assumes "wf (tabs s)" "room 1 (tabs s)"
    and "run_state (overlay_fs_write E db path data sz) s = (r, s')"
  shows "saved s \<noteq> None \<and> saved s' = None \<or>
    wf (tabs s') \<and> saved s' = saved s \<and>
    (sz < 2 ^ 31 \<and> (\<forall>d. data = Some d \<longrightarrow> sz \<le> length d) \<and> true_sizes (tabs s) \<longrightarrow> true_sizes (tabs s')) \<and>
    (r = 0 \<and> (\<exists>p d b. db = Main_db \<and> path = Some p \<and> d = (case data of None \<Rightarrow> [] | Some d \<Rightarrow> d) \<and>
        history (tabs s') = (history (tabs s))(p := history (tabs s) p @ [b]) \<and>
        (sz < 2 ^ 31 \<longrightarrow> b = take sz d) \<and>
        (0 \<le> column_int (int sz) \<longrightarrow> b = take (nat (column_int (int sz))) d)) \<or>
     r = -1 \<and> history (tabs s') = history (tabs s))"
proof (cases "db = Main_db \<and> path \<noteq> None \<and> \<not> (sz > 0 \<and> data = None)")
  case False
  then show ?thesis
    using assms by (cases db; cases path) (auto simp: overlay_fs_write_def)
next
  case True
  then obtain p where p: "path = Some p" "db = Main_db" by auto
  let ?d = "case data of None \<Rightarrow> [] | Some d \<Rightarrow> d" and ?E = "statement_faults E"
  have run: "run_state (write_at E p ?d sz) s = (r, s')"
    using assms(3) True p by (auto simp: overlay_fs_write_def)
  show ?thesis
  proof (cases "lost s s'")
    case False
    then have "run_state (write_at ?E p ?d sz) s = (r, s')"
      using steadyD(3) [OF steady_write_at run] by blast
    then have app: "appended p (bound_bytes ?E ?d sz) sz s r s'"
      using write_at_outcome assms(1,2) by simp
    have "column_int64 (int sz) = int (length (bound_bytes ?E ?d sz))"
      if "sz < 2 ^ 31" "\<forall>d. data = Some d \<longrightarrow> sz \<le> length d"
      using that True by (cases data) (simp_all add: column_int64_small)
    moreover have "bound_bytes ?E ?d sz = take (nat (column_int (int sz))) ?d" if "0 \<le> column_int (int sz)"
      using that by (simp add: bound_bytes_def)
    ultimately show ?thesis using app p by (auto simp: appended_def frame_def)
  qed (simp add: lost_def)
qed

theorem overlay_fs_write_contract_witness:
  "\<exists>r s'. run_state (overlay_fs_write quiet_env Main_db (Some ''a'') (Some [1, 2]) 2) fresh_conn = (r, s') \<and>
     wf (tabs s') \<and> (r = 0 \<and> history (tabs s') ''a'' = [[1, 2]] \<or> r = -1)"
proof -
  obtain r s' where run:
    "run_state (overlay_fs_write quiet_env Main_db (Some ''a'') (Some [1, 2]) 2) fresh_conn = (r, s')"
    by (metis prod.collapse)
  have "wf (tabs s') \<and> (r = 0 \<and> history (tabs s') ''a'' = [[1, 2]] \<or> r = -1)"
    using overlay_fs_write_contract [OF _ _ run] by auto
  with run show ?thesis by blast
qed

text \<open>
  C9. A sequence of writes on a database with its schema, with no failing call, runs to the
  end and returns 0; every path's history then ends with the contents written to it, in
  order, and all three readers return the last of them.
\<close>

theorem write_list_succeeds:
  assumes "store_inv E (length es) s" "healthy E s"
    and "\<forall>(p, d) \<in> set es. length d \<le> max_len E \<and> length d < 2 ^ 31"
  shows "\<exists>s'. write_list (put_file E) es s = (0, s') \<and>
     (\<forall>p. history (tabs s') p = history (tabs s) p @ contents_for p es) \<and>
     (\<forall>p. let h = history (tabs s') p; f = (if h = [] then None else Some (last h)) in
        get_by_id E p s' = f \<and> get_by_view E p s' = f \<and> get_by_db E p s' = f)"
proof -
  obtain s' where s': "write_list (put_file E) es s = (0, s')" "healthy E s'"
    using write_list_runs [OF assms] by blast
  have inv: "store_inv E 0 s'" using log.write_list_inv assms(1) s'(1) by blast
  have fit: "\<forall>e \<in> set es. fits_int (snd e)" using assms(3) by auto
  show ?thesis
    using s'(1) log.write_list_done [OF assms(1) s'(1) _ fit] by_id.read_healthy [OF inv s'(2)]
      by_view.read_healthy [OF inv s'(2)] by_db.read_healthy [OF inv s'(2)]
    by (auto simp: Let_def)
qed

theorem write_list_succeeds_witness:
  "\<exists>s'. write_list (put_file quiet_env) [(''a'', [1]), (''b'', []), (''a'', [2, 3])] fresh_conn = (0, s') \<and>
     history (tabs s') ''a'' = [[1], [2, 3]] \<and> get_by_id quiet_env ''a'' s' = Some [2, 3]"
proof -
  have "\<exists>s'. write_list (put_file quiet_env) [(''a'', [1]), (''b'', []), (''a'', [2, 3])] fresh_conn = (0, s') \<and>
     (\<forall>p. history (tabs s') p = history (tabs fresh_conn) p @ contents_for p [(''a'', [1]), (''b'', []), (''a'', [2, 3])]) \<and>
     (\<forall>p. let h = history (tabs s') p; f = (if h = [] then None else Some (last h)) in
        get_by_id quiet_env p s' = f \<and> get_by_view quiet_env p s' = f \<and> get_by_db quiet_env p s' = f)"
    by (intro write_list_succeeds) (simp_all add: fresh_store_inv)
  then show ?thesis by (auto simp: Let_def)
qed

text \<open>
  C10. No sequence of writes ever loses or reorders a stored version, whatever fails under
  it, as long as SQLite does not roll back a transaction that was open around it (outside a
  transaction nothing is excluded): each history afterwards extends the one before, and a
  reader that returns a file returns the last version. Where every content is shorter than
  2^31 bytes, what was added is the beginning of what was written to the path, in order, and
  all of it when the sequence returned 0.
\<close>

theorem write_list_append_only:
  assumes "store_inv E (length es) s" "write_list (put_file E) es s = (r, s')"
  shows "wf (tabs s') \<and>
     (\<exists>new. history (tabs s') p = history (tabs s) p @ new \<and>
       ((\<forall>e \<in> set es. length (snd e) < 2 ^ 31) \<longrightarrow>
          (\<exists>rest. contents_for p es = new @ rest \<and> (0 \<le> r \<longrightarrow> rest = [])))) \<and>
     (\<forall>d. get_by_id E p s' = Some d \<or> get_by_view E p s' = Some d \<or> get_by_db E p s' = Some d \<longrightarrow>
        history (tabs s') p \<noteq> [] \<and> d = last (history (tabs s') p))"
proof -
  have inv: "store_inv E 0 s'" by (rule log.write_list_inv [OF assms])
  then have "wf (tabs s')" by (simp add: store_inv_def)
  moreover note log.writes_only_append [OF assms, of p]
  moreover have "history (tabs s') p \<noteq> [] \<and> d = last (history (tabs s') p)"
    if "get_by_id E p s' = Some d \<or> get_by_view E p s' = Some d \<or> get_by_db E p s' = Some d" for d
    using that
    by (elim disjE) (fact by_id.read_sound [OF inv] by_view.read_sound [OF inv] by_db.read_sound [OF inv])+
  ultimately show ?thesis by simp
qed

theorem write_list_append_only_witness:
  "\<exists>r s'. write_list (put_file quiet_env) [(''a'', [1])] fresh_conn = (r, s') \<and> wf (tabs s') \<and>
     (0 \<le> r \<longrightarrow> history (tabs s') ''a'' = [[1]])"
proof -
  obtain r s' where run: "write_list (put_file quiet_env) [(''a'', [1])] fresh_conn = (r, s')"
    by (rule prod.exhaust)
  have "store_inv quiet_env (length [(''a'', [1 :: u8])]) fresh_conn" by (simp add: fresh_store_inv)
  then have "wf (tabs s') \<and> (0 \<le> r \<longrightarrow> history (tabs s') ''a'' = [[1]])"
    using write_list_append_only [OF _ run, of "''a''"] by auto
  with run show ?thesis by blast
qed

text \<open>
  C23. Where no call fails, the four readers of the program agree: all fail for a path without
  a version, and otherwise return code 0 and the last version with its length. They differ
  only on an empty file, for which overlay_fs.c allocates a buffer and db.c leaves the data
  pointer NULL. The flags \<open>dev\<close> and \<open>use_overlay\<close> have no effect. For \<open>use_overlay = 0\<close> db.h
  documents something else, a read of the base archive only, which the code does not have.
\<close>

theorem readers_agree:
  assumes "wf (tabs s)" "healthy E s"
  shows "let h = history (tabs s) p in
    fst (run_state (overlay_fs_read E Main_db (Some p) (Some o0)) s) =
      (if h = [] then (-1, Some (None, 0)) else (0, Some (Some (last h), length (last h)))) \<and>
    fst (run_state (overlay_fs_read_file E Main_db (Some p) dev (Some o0)) s) =
      (if h = [] then (-1, Some (None, 0)) else (0, Some (Some (last h), length (last h)))) \<and>
    fst (run_state (hbf_db_read_file E Main_db (Some p) ov (Some o0)) s) =
      (if h = [] then (-1, Some (None, 0))
       else if last h = [] then (0, Some (None, 0)) else (0, Some (Some (last h), length (last h)))) \<and>
    fst (run_state (hbf_db_read_file_from_main E Main_db (Some p) (Some o0)) s) =
      (if h = [] then (-1, Some (None, 0))
       else if last h = [] then (0, Some (None, 0)) else (0, Some (Some (last h), length (last h))))"
  unfolding Let_def db_read_main_eq [of E Main_db "Some p" "Some o0" ov]
  using read_by_id_healthy [OF assms(1,2)] read_by_view_healthy [OF assms(1,2)]
    db_read_healthy [OF assms(1,2)] by simp

theorem readers_agree_witness:
  "fst (run_state (overlay_fs_read quiet_env Main_db (Some ''a'') (Some (None, 7))) fresh_conn) = (-1, Some (None, 0)) \<and>
   fst (run_state (hbf_db_read_file quiet_env Main_db (Some ''a'') 1 (Some (None, 7))) fresh_conn) = (-1, Some (None, 0))"
  using readers_agree [OF _ fresh_healthy, of "''a''" "(None, 7)" 1 1] by (simp add: Let_def)

text \<open>
  C25. \<open>overlay_fs_version_count\<close> counts the versions in the path's history, and
  \<open>hbf_db_file_exists_in_main\<close> says 1 exactly when there is one; both leave the tables alone.
  \<open>overlay_fs_exists\<close> says 1 exactly when the path has an id, with or without a version.
\<close>

theorem existence_queries:
  assumes "wf (tabs s)" "healthy E s" "room 0 (tabs s)"
  shows "fst (run_state (overlay_fs_version_count E Main_db (Some p)) s) = int (length (history (tabs s) p)) \<and>
    fst (run_state (hbf_db_file_exists_in_main E Main_db (Some p)) s) = (if history (tabs s) p = [] then 0 else 1) \<and>
    fst (run_state (overlay_fs_exists E Main_db (Some p)) s) = (if p \<in> snd ` set (file_ids (tabs s)) then 1 else 0) \<and>
    tabs (snd (run_state (overlay_fs_version_count E Main_db (Some p)) s)) = tabs s \<and>
    tabs (snd (run_state (hbf_db_file_exists_in_main E Main_db (Some p)) s)) = tabs s \<and>
    tabs (snd (run_state (overlay_fs_exists E Main_db (Some p)) s)) = tabs s"
proof -
  have "length (history (tabs s) p) \<le> length (file_versions (tabs s))"
    by (auto simp: history_def versions_of_le split: option.splits)
  then have "column_int (int (length (history (tabs s) p))) = int (length (history (tabs s) p))"
    using assms(3) by (simp add: room_def column_int_small)
  then show ?thesis
    using select_file_id_None [of p "tabs s"] healthyD [OF assms(2)]
    by (cases "select_file_id p (tabs s)")
       (simp_all add: overlay_fs_version_count_def hbf_db_file_exists_in_main_def overlay_fs_exists_def
        sq_bind_def version_count_history [OF assms(1)] latest_by_view_history [OF assms(1)])
qed

theorem existence_queries_witness:
  "fst (run_state (overlay_fs_version_count quiet_env Main_db (Some ''a'')) fresh_conn) = 0 \<and>
   fst (run_state (overlay_fs_exists quiet_env Main_db (Some ''a'')) fresh_conn) = 0"
  using existence_queries [of fresh_conn quiet_env "''a''"] by simp

text \<open>
  C24. The table \<open>latest_files_meta\<close>, kept by a trigger, always holds exactly the rows of the
  view \<open>latest_files_metadata\<close>, each once, after any write and under any failures.
\<close>

theorem latest_meta_exact:
  assumes "wf (tabs s)" "calm E s" "room 1 (tabs s)" "sz \<le> length d"
    and "run_state (overlay_fs_write E Main_db (Some p) (Some d) sz) s = (r, s')"
  shows "set (latest_files_meta (tabs s')) = set (latest_files_metadata (tabs s')) \<and>
     distinct (map m_file_id (latest_files_meta (tabs s')))"
proof -
  have "wf (tabs s')" using overlay_write_outcome [OF assms(1-3,5)] by (simp add: appended_def)
  then show ?thesis using meta_set_latest by (simp add: wf_def wf_meta_def)
qed

theorem latest_meta_exact_witness:
  "\<exists>r s'. run_state (overlay_fs_write quiet_env Main_db (Some ''a'') (Some [5]) 1) fresh_conn = (r, s') \<and>
     set (latest_files_meta (tabs s')) = set (latest_files_metadata (tabs s'))"
proof -
  obtain r s' where run: "run_state (overlay_fs_write quiet_env Main_db (Some ''a'') (Some [5]) 1) fresh_conn = (r, s')"
    by (rule prod.exhaust)
  then show ?thesis using latest_meta_exact [OF _ _ _ _ run] by auto
qed

text \<open>
  C39. The two inserts of a first write are not one transaction: when the insert of the version
  fails, the path keeps its id. \<open>overlay_fs_exists\<close> then reports a file that has no version and
  that no reader can return; a later write that works turns it into an ordinary file.
\<close>

theorem failed_first_write_leaves_id:
  assumes "wf (tabs s)" "room 1 (tabs s)" "saved s = None" "has_schema (tabs s)"
    and "p \<notin> snd ` set (file_ids (tabs s))"
    and "\<And>n. n < tick s + 5 \<Longrightarrow> fault_at E n = Fine" "fault_at E (tick s + 5) \<noteq> Fine"
    and "put_file E p d s = (r, s')" "healthy E' s'"
  shows "r = -1 \<and> history (tabs s') p = [] \<and>
     fst (run_state (overlay_fs_exists E' Main_db (Some p)) s') = 1 \<and>
     get_by_id E' p s' = None \<and> get_by_db E' p s' = None"
proof -
  have calm: "calm E s" using assms(3) by (rule calm_no_tx)
  have av: "available [''file_ids''] (tabs s)" "available [''file_versions''] (tabs s)"
    using assms(4) by (auto simp: available_def has_schema_def)
  have none: "select_file_id p (tabs s) = None" using assms(5) by (simp add: select_file_id_None)
  obtain t where t: "insert_file_id p (tabs s) = Some t"
    using assms(2,5) by (auto simp: insert_file_id_def room_def)
  then have t': "available [''file_versions''] t" "(file_ids_seq t, p) \<in> set (file_ids t)"
    using av by (auto simp: insert_file_id_Some available_def)
  have fine: "fault_at E (tick s) = Fine" "fault_at E (Suc (tick s)) = Fine"
      "fault_at E (Suc (Suc (tick s))) = Fine" "fault_at E (Suc (Suc (Suc (tick s)))) = Fine"
      "fault_at E (Suc (Suc (Suc (Suc (tick s))))) = Fine"
      "fault_at E (Suc (Suc (Suc (Suc (Suc (tick s)))))) \<noteq> Fine"
    using assms(6) [of "tick s"] assms(6) [of "Suc (tick s)"] assms(6) [of "tick s + 2"]
      assms(6) [of "tick s + 3"] assms(6) [of "tick s + 4"] assms(7) by (simp_all add: eval_nat_numeral)
  have out: "r = -1 \<and> tabs s' = t"
    using assms(8) calm
    by (simp add: overlay_fs_write_def write_at_def write_new_path_def insert_new_version_def
        fine av none t t' Let_def split: if_splits) auto
  have wf: "wf t" and hist: "history t p = []"
    using insert_file_id_wf [OF assms(1) t] none by (simp_all add: history_def)
  have "select_file_id p t = Some (file_ids_seq t)"
    using wf t' by (simp add: select_file_id_iff wf_def)
  then show ?thesis
    using out wf hist read_by_id_healthy [of s' E' p "(None, 0)"] assms(9)
      db_read_healthy [of s' E' p 1 "(None, 0)"] healthyD(3) [OF assms(9)]
    by (simp add: overlay_fs_exists_def healthyD [OF assms(9)] file_of_def)
qed

theorem failed_first_write_leaves_id_witness:
  "\<exists>E s'. put_file E ''a'' [1] fresh_conn = (-1, s') \<and> history (tabs s') ''a'' = [] \<and>
     fst (run_state (overlay_fs_exists quiet_env Main_db (Some ''a'')) s') = 1"
proof -
  define E where "E = quiet_env\<lparr>fault_at := \<lambda>n. if n = 5 then Stmt_Fault else Fine\<rparr>"
  obtain r s' where run: "put_file E ''a'' [1] fresh_conn = (r, s')" by (rule prod.exhaust)
  have inv: "store_inv E 1 fresh_conn" by (simp add: fresh_store_inv)
  then have "frame fresh_conn s'" using store_inv_put [of E 0 fresh_conn, OF _ run] by (simp add: appended_def)
  then have "healthy quiet_env s'" by (rule healthy_frame [OF fresh_healthy])
  then show ?thesis
    using failed_first_write_leaves_id [OF _ _ _ _ _ _ _ run, of quiet_env] run by (auto simp: E_def)
qed

end
