(* ===== verification/Cstd.thy ===== *)
theory Cstd
  imports Prelude "HOL-Library.Char_ord" "HOL-Library.List_Lexorder"
begin

text \<open>
  The functions of the C library the sources use on strings: \<open>strcmp\<close>, \<open>strtol\<close>, \<open>atoi\<close>,
  \<open>strncpy\<close>, \<open>snprintf\<close> with \<open>%s\<close>, \<open>strrchr\<close>. A C string is the list of its characters
  before the NUL.
\<close>

section \<open>Comparison\<close>

text \<open>\<open>strcmp\<close> compares as \<open>unsigned char\<close>; the end of a string counts as 0.\<close>

fun strcmp :: "string \<Rightarrow> string \<Rightarrow> int" where
  "strcmp [] [] = 0"
| "strcmp [] (b # bs) = - int (of_char b)"
| "strcmp (a # as) [] = int (of_char a)"
| "strcmp (a # as) (b # bs) =
     (if a = b then strcmp as bs else int (of_char a) - int (of_char b))"

lemma char_less_iff: "a < b \<longleftrightarrow> (of_char a :: nat) < of_char b" for a b :: char
  by (simp add: less_char_def)

lemma of_char_zero_iff: "(of_char c :: nat) = 0 \<longleftrightarrow> c = CHR 0x00"
proof -
  have "(of_char c :: nat) = of_char (CHR 0x00) \<longleftrightarrow> c = CHR 0x00" by (simp only: of_char_eq_iff)
  then show ?thesis by simp
qed

lemma of_char_int_zero_iff: "(of_char c :: int) = 0 \<longleftrightarrow> c = CHR 0x00"
proof -
  have "(of_char c :: int) = of_char (CHR 0x00) \<longleftrightarrow> c = CHR 0x00" by (simp only: of_char_eq_iff)
  then show ?thesis by simp
qed

text \<open>On strings without a NUL inside, \<open>strcmp\<close> is the lexicographic order.\<close>

lemma strcmp_less_iff:
  "nul_free a \<Longrightarrow> nul_free b \<Longrightarrow> (strcmp a b < 0 \<longleftrightarrow> a < b) \<and> (strcmp a b = 0 \<longleftrightarrow> a = b)"
proof (induction a b rule: strcmp.induct)
  case (4 a as b bs)
  show ?case
  proof (cases "a = b")
    case True
    with 4 show ?thesis by (simp add: nul_free_def)
  next
    case False
    then have "(of_char a :: nat) \<noteq> of_char b" by (simp only: of_char_eq_iff not_False_eq_True)
    with False show ?thesis by (auto simp: char_less_iff)
  qed
next
  case (2 b bs)
  then show ?case using of_char_zero_iff [of b] by (auto simp: nul_free_def)
next
  case (3 a as)
  then show ?case using of_char_zero_iff [of a] by (auto simp: nul_free_def)
qed simp

lemma strcmp_eq: "nul_free a \<Longrightarrow> nul_free b \<Longrightarrow> strcmp a b = 0 \<longleftrightarrow> a = b"
  using strcmp_less_iff by blast

lemma strcmp_le: "nul_free a \<Longrightarrow> nul_free b \<Longrightarrow> strcmp a b \<le> 0 \<longleftrightarrow> a \<le> b"
  using strcmp_less_iff [of a b] by (auto simp: le_less)

section \<open>Numbers\<close>

definition is_space :: "char \<Rightarrow> bool" where
  "is_space c \<longleftrightarrow> c \<in> {CHR '' '', CHR 0x09, CHR 0x0A, CHR 0x0B, CHR 0x0C, CHR 0x0D}"

definition is_digit :: "char \<Rightarrow> bool" where
  "is_digit c \<longleftrightarrow> 48 \<le> (of_char c :: nat) \<and> (of_char c :: nat) \<le> 57"

text \<open>\<open>strtol(s, &end, 10)\<close>: white space, a sign, digits; without a digit nothing is
  converted and \<open>end\<close> is \<open>s\<close>; out of range the result is clamped to \<open>long\<close>.\<close>

definition strtol :: "string \<Rightarrow> int \<times> string" where
  "strtol s =
     (let r = dropWhile is_space s;
          neg = (case r of c # _ \<Rightarrow> c = CHR ''-'' | [] \<Rightarrow> False);
          u = (case r of c # cs \<Rightarrow> if c = CHR ''-'' \<or> c = CHR ''+'' then cs else r | [] \<Rightarrow> r);
          ds = takeWhile is_digit u;
          n = int (undigits 10 (map (\<lambda>c. of_char c - 48) ds))
      in if ds = [] then (0, s)
         else (max (- (2 ^ 63)) (min (2 ^ 63 - 1) (if neg then - n else n)), dropWhile is_digit u))"

text \<open>\<open>atoi\<close> is \<open>(int)strtol(s, NULL, 10)\<close>.\<close>

definition atoi :: "string \<Rightarrow> int" where
  "atoi s = signed_take_bit 31 (fst (strtol s))"

section \<open>Bounded copies\<close>

text \<open>What a \<open>char[n]\<close> holds after \<open>snprintf(buf, n, "%s", s)\<close>.\<close>

definition snprintf_s :: "nat \<Rightarrow> string \<Rightarrow> string" where
  "snprintf_s n s = take (n - 1) s"

text \<open>\<open>strncpy(dst, src, n)\<close> on a buffer: \<open>n\<close> characters of the source, padded with NULs;
  what lies behind them stays.\<close>

definition strncpy_buf :: "string \<Rightarrow> string \<Rightarrow> nat \<Rightarrow> string" where
  "strncpy_buf dst src n =
     take n src @ replicate (n - length src) (CHR 0x00) @ drop n dst"

lemma length_strncpy_buf: "n \<le> length dst \<Longrightarrow> length (strncpy_buf dst src n) = length dst"
  by (simp add: strncpy_buf_def)

lemma length_snprintf_s: "0 < n \<Longrightarrow> length (snprintf_s n s) < n"
  by (simp add: snprintf_s_def)

text \<open>\<open>strrchr\<close>: the rest of the string from the last occurrence on.\<close>

definition strrchr :: "string \<Rightarrow> char \<Rightarrow> string option" where
  "strrchr s c =
     (if c \<in> set s then Some (c # rev (takeWhile (\<lambda>x. x \<noteq> c) (rev s))) else None)"

lemma strrchr_Some:
  assumes "strrchr s c = Some e"
  shows "\<exists>pre ext. s = pre @ e \<and> e = c # ext \<and> c \<notin> set ext"
proof -
  let ?t = "takeWhile (\<lambda>x. x \<noteq> c) (rev s)" and ?d = "dropWhile (\<lambda>x. x \<noteq> c) (rev s)"
  have c: "c \<in> set s" and e: "e = c # rev ?t" using assms by (auto simp: strrchr_def split: if_splits)
  have "?d \<noteq> []" using c by (auto simp: dropWhile_eq_Nil_conv)
  then obtain ds where d: "?d = c # ds" using hd_dropWhile [of "\<lambda>x. x \<noteq> c" "rev s"] by (cases ?d) auto
  have "rev s = ?t @ c # ds" using takeWhile_dropWhile_id [of "\<lambda>x. x \<noteq> c" "rev s"] d by simp
  then have "s = rev ds @ e" by (simp add: e rev_swap)
  moreover have "c \<notin> set (rev ?t)" by (auto dest: set_takeWhileD)
  ultimately show ?thesis using e by blast
qed

end
