(* ===== verification/Bundle.thy ===== *)
theory Bundle
  imports Cstd "HOL-Library.State_Monad"
begin

text \<open>
  tools/asset_packer.c: the tool that packs the files named on its command line into one
  deterministic binary bundle, compresses it and prints it as a C array. The file system is
  a map from names to what \<open>fopen\<close>, \<open>fseek\<close>, \<open>ftell\<close> and \<open>fread\<close> give; \<open>malloc\<close> may fail at
  any call; zlib's \<open>compress2\<close> is a parameter. So is what a file that was created holds when
  its text was handed to \<open>fprintf\<close> and the stream was closed (\<open>written\<close>): the code looks at
  neither result, and on a full disk the file can hold any part of the text or nothing of it.
  Messages are left out.
\<close>

section \<open>Data\<close>

record file_entry =
  e_path :: string
  e_data :: bytes
  e_len :: u32

record bundle_t =
  entries :: "file_entry list"
  capacity :: nat

text \<open>\<open>bundle->count\<close> is the length of \<open>entries\<close>.\<close>

abbreviation count :: "bundle_t \<Rightarrow> nat" where
  "count b \<equiv> length (entries b)"

record disk_file =
  d_seek :: bool
  d_tell :: int
  d_content :: bytes

record packer_env =
  disk :: "string \<Rightarrow> disk_file option"
  alloc_ok :: "nat \<Rightarrow> nat \<Rightarrow> bool"
  can_create :: "string \<Rightarrow> bool"
  compressBound :: "nat \<Rightarrow> nat"
  compress2 :: "bytes \<Rightarrow> int \<Rightarrow> bytes option"
  written :: "string \<Rightarrow> string \<Rightarrow> string"

text \<open>The only state of the tool's environment is the number of allocations made.\<close>

type_synonym 'a pk = "(nat, 'a) state"

abbreviation ok :: "'a \<Rightarrow> 'a pk" where
  "ok \<equiv> State_Monad.return"

definition pk_malloc :: "packer_env \<Rightarrow> nat \<Rightarrow> bool pk" where
  "pk_malloc E n = State (\<lambda>k. (alloc_ok E k n, Suc k))"

definition max_file_size :: int where
  "max_file_size = 100 * 1024 * 1024"

section \<open>Collecting the files\<close>

definition bundle_init :: "packer_env \<Rightarrow> u32 \<Rightarrow> bundle_t option pk" where
  "bundle_init E cap = do {
     a \<leftarrow> pk_malloc E (24 * unat cap);
     ok (if a then Some \<lparr>entries = [], capacity = unat cap\<rparr> else None)
   }"

definition bundle_free :: "bundle_t \<Rightarrow> bundle_t" where
  "bundle_free b = b\<lparr>entries := [], capacity := 0\<rparr>"

definition should_skip_file :: "string \<Rightarrow> bool" where
  "should_skip_file path =
     (let len = length path; suffix = ''.js.map''; suffix_len = length suffix
      in if len \<ge> suffix_len then strcmp (drop (len - suffix_len) path) suffix = 0 else False)"

text \<open>\<open>None\<close> is the return value -1, \<open>Some\<close> the bundle after it.\<close>

definition bundle_add_file :: "packer_env \<Rightarrow> bundle_t \<Rightarrow> string \<Rightarrow> bundle_t option pk" where
  "bundle_add_file E b path =
     (if count b \<ge> capacity b then ok None
      else case disk E path of
        None \<Rightarrow> ok None
      | Some f \<Rightarrow>
          if \<not> d_seek f then ok None
          else if d_tell f < 0 then ok None
          else if d_tell f > max_file_size then ok None
          else do {
            a \<leftarrow> pk_malloc E (nat (d_tell f));
            if \<not> a then ok None
            else
              let data = take (nat (d_tell f)) (d_content f)
              in if length data \<noteq> nat (d_tell f) then ok None
                 else do {
                   s \<leftarrow> pk_malloc E (length path + 1);
                   ok (if s
                       then Some (b\<lparr>entries := entries b @
                         [\<lparr>e_path = path, e_data = data, e_len = word_of_int (d_tell f)\<rparr>]\<rparr>)
                       else None)
                 }
          })"

text \<open>The loop of \<open>main\<close> over the arguments from the first file on.\<close>

fun add_files :: "packer_env \<Rightarrow> string list \<Rightarrow> bundle_t \<Rightarrow> bundle_t option pk" where
  "add_files E [] b = ok (Some b)"
| "add_files E (a # as) b =
     (if take 1 a \<noteq> ''-''
      then if should_skip_file a then add_files E as b
           else do {
             r \<leftarrow> bundle_add_file E b a;
             (case r of None \<Rightarrow> ok None | Some b' \<Rightarrow> add_files E as b')
           }
      else add_files E as b)"

section \<open>Packing\<close>

definition compare_entries :: "file_entry \<Rightarrow> file_entry \<Rightarrow> int" where
  "compare_entries a b = strcmp (e_path a) (e_path b)"

text \<open>\<open>qsort\<close> of the entries with \<open>compare_entries\<close>. C does not say where equal elements
  end up; the model keeps their order, and \<open>qsort_any\<close> below shows that for different paths
  every result the standard allows is this one.\<close>

fun insert_entry :: "file_entry \<Rightarrow> file_entry list \<Rightarrow> file_entry list" where
  "insert_entry e [] = [e]"
| "insert_entry e (x # xs) =
     (if compare_entries e x \<le> 0 then e # x # xs else x # insert_entry e xs)"

fun qsort :: "file_entry list \<Rightarrow> file_entry list" where
  "qsort [] = []"
| "qsort (e # es) = insert_entry e (qsort es)"

definition name_len :: "file_entry \<Rightarrow> u32" where
  "name_len e = word_of_nat (length (e_path e))"

definition total_size :: "file_entry list \<Rightarrow> u64" where
  "total_size es = fold (\<lambda>e t. t + 4 + ucast (name_len e) + 4 + ucast (e_len e)) es 4"

text \<open>\<open>memcpy\<close> of a \<open>uint32_t\<close> stores it in the byte order of the (little-endian) host.\<close>

definition pack_entry :: "file_entry \<Rightarrow> bytes" where
  "pack_entry e = le32 (name_len e) @ take (unat (name_len e)) (map byte_of_char (e_path e)) @
     le32 (e_len e) @ take (unat (e_len e)) (e_data e)"

definition bundle_pack :: "packer_env \<Rightarrow> bundle_t \<Rightarrow> (bytes \<times> u64) option pk" where
  "bundle_pack E b =
     (let es = qsort (entries b); tot = total_size es
      in do {
        a \<leftarrow> pk_malloc E (unat tot);
        ok (if a then Some (le32 (word_of_nat (length es)) @ concat (map pack_entry es), tot)
            else None)
      })"

definition compress_bundle :: "packer_env \<Rightarrow> bytes \<Rightarrow> int \<Rightarrow> bytes option pk" where
  "compress_bundle E data level = do {
     a \<leftarrow> pk_malloc E (compressBound E (length data));
     ok (if a then compress2 E data level else None)
   }"

section \<open>The generated C files\<close>

text \<open>The loop that prints the initialiser; \<open>n\<close> is \<open>data_len\<close>, \<open>i\<close> the index of the first byte
  of the list.\<close>

fun array_items :: "nat \<Rightarrow> nat \<Rightarrow> bytes \<Rightarrow> string" where
  "array_items n i [] = []"
| "array_items n i (b # bs) =
     (if i mod 12 = 0 then [CHR 0x0A, CHR 0x09] else []) @ ''0x'' @ hex2 b @
     (if i < n - 1 then '', '' else []) @ array_items n (Suc i) bs"

definition nl :: string where
  "nl = [CHR 0x0A]"

definition source_text :: "string \<Rightarrow> bytes \<Rightarrow> string" where
  "source_text symbol data =
     ''/* Auto-generated by asset_packer - do not edit */'' @ nl @ nl @
     ''#include <stddef.h>'' @ nl @ nl @
     ''const unsigned char '' @ symbol @ ''[] = {'' @
     array_items (length data) 0 data @
     nl @ ''};'' @ nl @ nl @
     ''const size_t '' @ symbol @ ''_len = '' @ decimal (length data) @ '';'' @ nl"

definition header_text :: "string \<Rightarrow> string" where
  "header_text symbol =
     ''/* Auto-generated by asset_packer - do not edit */'' @ nl @
     ''#ifndef ASSETS_BLOB_H'' @ nl @ ''#define ASSETS_BLOB_H'' @ nl @ nl @
     ''#include <stddef.h>'' @ nl @ nl @
     ''extern const unsigned char '' @ symbol @ ''[];'' @ nl @
     ''extern const size_t '' @ symbol @ ''_len;'' @ nl @ nl @
     ''#endif /* ASSETS_BLOB_H */'' @ nl"

text \<open>The return code and what the files created hold afterwards. The results of \<open>fprintf\<close> and
  \<open>fclose\<close> are not looked at by the code, so the return code does not depend on \<open>written\<close>.\<close>

definition write_c_source ::
    "packer_env \<Rightarrow> string \<Rightarrow> string \<Rightarrow> string \<Rightarrow> bytes \<Rightarrow> int \<times> (string \<times> string) list" where
  "write_c_source E output_source output_header symbol data =
     (if \<not> can_create E output_source then (-1, [])
      else
        (let source = (output_source, written E output_source (source_text symbol data))
         in if \<not> can_create E output_header then (-1, [source])
            else (0, [source, (output_header, written E output_header (header_text symbol))])))"

section \<open>main\<close>

record options =
  o_source :: "string option"
  o_header :: "string option"
  o_symbol :: string
  o_level :: int
  o_first :: int
  o_num :: int

definition default_options :: options where
  "default_options = \<lparr>o_source = None, o_header = None, o_symbol = ''assets_blob'', o_level = 9,
     o_first = -1, o_num = 0\<rparr>"

text \<open>The argument loop from index \<open>i\<close> on; \<open>None\<close> is an exit with code 1.\<close>

fun parse_args :: "int \<Rightarrow> string list \<Rightarrow> options \<Rightarrow> options option" where
  "parse_args i [] o' = Some o'"
| "parse_args i (a # as) o' =
     (if a = ''--output-source'' then
        (case as of [] \<Rightarrow> None | v # vs \<Rightarrow> parse_args (i + 2) vs (o'\<lparr>o_source := Some v\<rparr>))
      else if a = ''--output-header'' then
        (case as of [] \<Rightarrow> None | v # vs \<Rightarrow> parse_args (i + 2) vs (o'\<lparr>o_header := Some v\<rparr>))
      else if a = ''--symbol-name'' then
        (case as of [] \<Rightarrow> None | v # vs \<Rightarrow> parse_args (i + 2) vs (o'\<lparr>o_symbol := v\<rparr>))
      else if a = ''--compression-level'' then
        (case as of [] \<Rightarrow> None
         | v # vs \<Rightarrow>
             if atoi v < 1 \<or> atoi v > 9 then None
             else parse_args (i + 2) vs (o'\<lparr>o_level := atoi v\<rparr>))
      else if take 1 a = ''-'' then None
      else parse_args (i + 1) as
        (o'\<lparr>o_first := (if o_first o' < 0 then i else o_first o'), o_num := o_num o' + 1\<rparr>))"

text \<open>\<open>argv\<close> with the program name; the result is the exit code and the files written.\<close>

definition packer_main :: "packer_env \<Rightarrow> string list \<Rightarrow> (int \<times> (string \<times> string) list) pk" where
  "packer_main E argv =
     (case parse_args 1 (tl argv) default_options of
        None \<Rightarrow> ok (1, [])
      | Some o' \<Rightarrow>
          (case (o_source o', o_header o') of
             (Some src, Some hdr) \<Rightarrow>
               if o_num o' = 0 then ok (1, [])
               else do {
                 b0 \<leftarrow> bundle_init E (word_of_int (o_num o'));
                 (case b0 of None \<Rightarrow> ok (1, [])
                  | Some b0 \<Rightarrow> do {
                      b1 \<leftarrow> add_files E (drop (nat (o_first o')) argv) b0;
                      (case b1 of None \<Rightarrow> ok (1, [])
                       | Some b \<Rightarrow> do {
                           packed \<leftarrow> bundle_pack E b;
                           (case packed of None \<Rightarrow> ok (1, [])
                            | Some (data, _) \<Rightarrow> do {
                                compressed \<leftarrow> compress_bundle E data (o_level o');
                                (case compressed of None \<Rightarrow> ok (1, [])
                                 | Some z \<Rightarrow>
                                     (let (rc, files) = write_c_source E src hdr (o_symbol o') z
                                      in ok (if rc \<noteq> 0 then 1 else 0, files)))
                              })
                         })
                    })
               }
           | _ \<Rightarrow> ok (1, [])))"

end
