(* ===== verification/Bundle_Format.thy ===== *)
theory Bundle_Format
  imports Bundle
begin

text \<open>
  The binary format that asset_packer.c writes and overlay_fs.c reads, as one reference
  decoder \<open>unpack\<close>: the entry count, then for every entry the length and the bytes of its name
  and of its data, all lengths 32-bit little-endian. The packer is shown to produce it, and
  \<open>Migrate\<close> shows that the migration loop follows it.
\<close>

section \<open>Reading a length\<close>

text \<open>\<open>read_u32\<close> of overlay_fs.c on the bytes at the read position.\<close>

definition read_u32 :: "bytes \<Rightarrow> u32" where
  "read_u32 buf =
     ucast (buf ! 0) OR push_bit 8 (ucast (buf ! 1)) OR push_bit 16 (ucast (buf ! 2)) OR
     push_bit 24 (ucast (buf ! 3))"

lemma bit_ucast_u8: "bit (ucast (b :: u8) :: u32) n \<longleftrightarrow> n < 8 \<and> bit b n"
proof -
  have "\<not> bit b n" if "\<not> n < 8" using that bit_imp_le_length [of b n] by auto
  then show ?thesis by (auto simp: bit_ucast_iff)
qed

lemma read_u32_le32 [simp]: "read_u32 (le32 w @ rest) = w"
proof (rule bit_eqI)
  fix n assume "possible_bit TYPE(u32) n"
  then have "n < 32" by simp
  then show "bit (read_u32 (le32 w @ rest)) n = bit w n"
    by (cases "n < 8"; cases "n < 16"; cases "n < 24")
       (auto simp: read_u32_def le32_def bit_simps bit_ucast_u8 not_less dest: bit_imp_le_length)
qed

section \<open>The reference decoder\<close>

text \<open>A length-prefixed field: its bytes and the rest of the buffer.\<close>

definition take_field :: "bytes \<Rightarrow> (bytes \<times> bytes) option" where
  "take_field bs =
     (if length bs < 4 then None
      else let n = unat (read_u32 bs); r = drop 4 bs
           in if length r < n then None else Some (take n r, drop n r))"

fun unpack :: "nat \<Rightarrow> bytes \<Rightarrow> (bytes \<times> bytes) list option" where
  "unpack 0 bs = Some []"
| "unpack (Suc n) bs =
     (case take_field bs of
        None \<Rightarrow> None
      | Some (name, bs1) \<Rightarrow>
          (case take_field bs1 of
             None \<Rightarrow> None
           | Some (data, bs2) \<Rightarrow> map_option ((#) (name, data)) (unpack n bs2)))"

definition unpack_bundle :: "bytes \<Rightarrow> (bytes \<times> bytes) list option" where
  "unpack_bundle bs = (if length bs < 4 then None else unpack (unat (read_u32 bs)) (drop 4 bs))"

lemma take_field_pack:
  "unat w = length d \<Longrightarrow> take_field (le32 w @ d @ rest) = Some (d, rest)"
  by (simp add: take_field_def Let_def)

lemma take_field_None_short: "length bs < 4 \<Longrightarrow> take_field bs = None"
  by (simp add: take_field_def)

lemma unpack_length: "unpack n bs = Some es \<Longrightarrow> length es = n"
  by (induction n bs arbitrary: es rule: unpack.induct) (auto split: option.splits)

section \<open>What the packer writes\<close>

text \<open>An entry as \<open>bundle_add_file\<close> makes it.\<close>

definition wf_entry :: "file_entry \<Rightarrow> bool" where
  "wf_entry e \<longleftrightarrow> nul_free (e_path e) \<and> length (e_path e) < 2 ^ 32 \<and> unat (e_len e) = length (e_data e) \<and>
     int (length (e_data e)) \<le> max_file_size"

definition entry_of :: "file_entry \<Rightarrow> bytes \<times> bytes" where
  "entry_of e = (map byte_of_char (e_path e), e_data e)"

lemma unat_name_len: "wf_entry e \<Longrightarrow> unat (name_len e) = length (e_path e)"
  by (simp add: wf_entry_def name_len_def unat_of_nat)

lemma pack_entry_wf:
  assumes "wf_entry e"
  shows "pack_entry e = le32 (name_len e) @ map byte_of_char (e_path e) @ le32 (e_len e) @ e_data e"
  using assms unat_name_len [OF assms] by (simp add: pack_entry_def wf_entry_def)

lemma unpack_pack:
  "\<forall>e \<in> set es. wf_entry e \<Longrightarrow>
     unpack (length es) (concat (map pack_entry es) @ rest) = Some (map entry_of es)"
proof (induction es)
  case Nil
  show ?case by simp
next
  case (Cons e es)
  then have e: "wf_entry e" by simp
  then have "unat (name_len e) = length (map byte_of_char (e_path e))" "unat (e_len e) = length (e_data e)"
    by (simp_all add: unat_name_len wf_entry_def)
  then show ?case
    using Cons by (simp add: pack_entry_wf [OF e] take_field_pack entry_of_def)
qed

section \<open>The sort\<close>

lemma insert_entry_set [simp]: "set (insert_entry e xs) = insert e (set xs)"
  by (induction xs) auto

lemma insert_entry_mset [simp]: "length (insert_entry e xs) = Suc (length xs)"
  by (induction xs) auto

lemma qsort_set [simp]: "set (qsort es) = set es" "length (qsort es) = length es"
  by (induction es) simp_all

lemma qsort_distinct: "distinct (map e_path es) \<Longrightarrow> distinct (map e_path (qsort es))"
proof (induction es)
  case (Cons e es)
  have "distinct (map e_path (insert_entry e xs))"
    if "distinct (map e_path xs)" "e_path e \<notin> e_path ` set xs" for xs
    using that by (induction xs) auto
  then show ?case using Cons by simp
qed simp

lemma qsort_sorted:
  assumes "\<forall>e \<in> set es. nul_free (e_path e)"
  shows "sorted (map e_path (qsort es))"
  using assms
proof (induction es)
  case (Cons e es)
  have "sorted (map e_path (insert_entry e xs))"
    if "sorted (map e_path xs)" "\<forall>x \<in> set xs. nul_free (e_path x)" "nul_free (e_path e)" for xs
    using that by (induction xs) (auto simp: compare_entries_def strcmp_le not_le intro: less_imp_le order_trans)
  then show ?case using Cons by simp
qed simp

text \<open>Whatever sorted arrangement \<open>qsort\<close> leaves, for different paths it is this one.\<close>

lemma qsort_any:
  assumes "\<forall>e \<in> set es. nul_free (e_path e)" "distinct (map e_path es)"
    and "set xs = set es" "distinct (map e_path xs)" "sorted (map e_path xs)"
  shows "xs = qsort es"
proof (rule map_sorted_distinct_set_unique)
  show "inj_on e_path (set xs \<union> set (qsort es))" using assms(2,3) by (simp add: distinct_map)
  show "sorted (map e_path (qsort es))" using assms(1) by (rule qsort_sorted)
  show "distinct (map e_path (qsort es))" using assms(2) by (rule qsort_distinct)
qed (use assms in simp_all)

end
