(* ===== verification/C_Reader.thy ===== *)
theory C_Reader
  imports Cstd "HOL-Library.Monad_Syntax"
begin

text \<open>
  A reader of the C that asset_packer.c generates, written from the C grammar and not from the
  packer: a lexer (white space, comments, preprocessor lines, the longest identifier or number,
  single characters of punctuation) and a recogniser of the two definitions the file must
  consist of. An array initialiser needs a comma between any two items and one item at least,
  an item must be a number that fits an \<open>unsigned char\<close>, and the length constant must have the
  array's name. Any other text is refused with \<open>None\<close>.
\<close>

section \<open>Tokens\<close>

definition ident_char :: "char \<Rightarrow> bool" where
  "ident_char c \<longleftrightarrow> c = CHR ''_'' \<or> digit_value c \<noteq> None \<or> 65 \<le> (of_char c :: nat) \<and> (of_char c :: nat) \<le> 90"

fun after_comment :: "string \<Rightarrow> string" where
  "after_comment [] = []"
| "after_comment [c] = []"
| "after_comment (c # d # cs) = (if c = CHR ''*'' \<and> d = CHR ''/'' then cs else after_comment (d # cs))"

lemma length_after_comment: "length (after_comment cs) \<le> length cs"
  by (induction cs rule: after_comment.induct) auto

function tokens :: "string \<Rightarrow> string list" where
  "tokens [] = []"
| "tokens (c # cs) =
     (if is_space c then tokens cs
      else if take 2 (c # cs) = ''/*'' then tokens (after_comment (tl cs))
      else if c = CHR ''#'' then tokens (dropWhile (\<lambda>x. x \<noteq> CHR 0x0A) cs)
      else if ident_char c then (c # takeWhile ident_char cs) # tokens (dropWhile ident_char cs)
      else [c] # tokens cs)"
  by pat_completeness auto
termination
proof (relation "measure length")
  fix c :: char and cs :: string
  have "length (after_comment (tl cs)) \<le> length cs"
    using length_after_comment [of "tl cs"] by (rule le_trans) simp
  then show "(after_comment (tl cs), c # cs) \<in> measure length" by simp
qed (simp_all add: le_imp_less_Suc length_dropWhile_le)

declare tokens.simps(2) [simp del]

section \<open>Grammar\<close>

text \<open>The value of a token that is a number in the given base.\<close>

definition number_in :: "nat \<Rightarrow> string \<Rightarrow> nat option" where
  "number_in base ds =
     (if ds \<noteq> [] \<and> (\<forall>c \<in> set ds. case digit_value c of None \<Rightarrow> False | Some d \<Rightarrow> d < base)
      then Some (undigits base (map (\<lambda>c. the (digit_value c)) ds)) else None)"

definition byte_token :: "string \<Rightarrow> u8 option" where
  "byte_token t =
     (if take 2 t = ''0x'' then
        (case number_in 16 (drop 2 t) of
           Some n \<Rightarrow> if n < 256 then Some (word_of_nat n) else None
         | None \<Rightarrow> None)
      else None)"

definition c_identifier :: "string \<Rightarrow> bool" where
  "c_identifier t \<longleftrightarrow> t \<noteq> [] \<and> list_all ident_char t \<and> \<not> is_digit (hd t)"

text \<open>The items up to the closing brace, and the tokens behind it.\<close>

fun read_items :: "string list \<Rightarrow> (bytes \<times> string list) option" where
  "read_items (t # p # ts) =
     (case byte_token t of
        None \<Rightarrow> None
      | Some b \<Rightarrow>
          if p = ''}'' then Some ([b], ts)
          else if p = '','' then map_option (map_prod ((#) b) id) (read_items ts)
          else None)"
| "read_items ts = None"

definition expect :: "string list \<Rightarrow> string list \<Rightarrow> string list option" where
  "expect p ts = (if take (length p) ts = p then Some (drop (length p) ts) else None)"

text \<open>\<open>const unsigned char NAME[] = {...}; const size_t NAME_len = N;\<close> and nothing else: the name,
  the bytes of the array and the value of the length constant.\<close>

definition read_source :: "string \<Rightarrow> (string \<times> bytes \<times> nat) option" where
  "read_source text = do {
     ts \<leftarrow> expect [''const'', ''unsigned'', ''char''] (tokens text);
     symbol \<leftarrow> (case ts of [] \<Rightarrow> None | t # _ \<Rightarrow> if c_identifier t then Some t else None);
     ts \<leftarrow> expect [symbol, ''['', '']'', ''='', ''{''] ts;
     (data, ts) \<leftarrow> read_items ts;
     ts \<leftarrow> expect ['';'', ''const'', ''size_t'', symbol @ ''_len'', ''=''] ts;
     n \<leftarrow> (case ts of [t, p] \<Rightarrow> if p = '';'' then number_in 10 t else None | _ \<Rightarrow> None);
     Some (symbol, data, n)
   }"

section \<open>The lexer on the pieces of a file\<close>

lemma tokens_space: "is_space c \<Longrightarrow> tokens (c # cs) = tokens cs"
  by (simp add: tokens.simps(2))

lemma ident_char_other: "ident_char c \<Longrightarrow> \<not> is_space c \<and> c \<noteq> CHR ''/'' \<and> c \<noteq> CHR ''#''"
  by (auto simp: ident_char_def is_space_def digit_value_def Let_def)

lemma tokens_punct:
  "\<not> is_space c \<Longrightarrow> c \<noteq> CHR ''/'' \<Longrightarrow> c \<noteq> CHR ''#'' \<Longrightarrow> \<not> ident_char c \<Longrightarrow> tokens (c # cs) = [c] # tokens cs"
  by (simp add: tokens.simps(2))

lemma tokens_word:
  assumes "w \<noteq> []" "list_all ident_char w" "cs = [] \<or> \<not> ident_char (hd cs)"
  shows "tokens (w @ cs) = w # tokens cs"
proof -
  obtain c v where w: "w = c # v" "ident_char c" "\<forall>x \<in> set v. ident_char x"
    using assms(1,2) by (cases w) (auto simp: list_all_iff)
  have "takeWhile ident_char (v @ cs) = v" "dropWhile ident_char (v @ cs) = cs"
    using w(3) assms(3) by (cases cs; simp)+
  then show ?thesis using w ident_char_other [OF w(2)] by (simp add: tokens.simps(2))
qed

lemma c_identifier_word: "c_identifier t \<Longrightarrow> t \<noteq> [] \<and> list_all ident_char t"
  by (simp add: c_identifier_def)

end
