(* ===== verification/Bundle_Props.thy ===== *)
theory Bundle_Props
  imports Bundle_Format C_Reader
begin

text \<open>
  The properties of the asset packer: the bundle it writes decodes to its sorted entries and
  fills its buffer exactly, it does not depend on the order of the files, the collected
  bundle is well-formed, and the printed C array reads back as the bytes.
\<close>

section \<open>Sizes\<close>

definition packed_size :: "file_entry list \<Rightarrow> nat" where
  "packed_size es = 4 + sum_list (map (\<lambda>e. 8 + length (e_path e) + length (e_data e)) es)"

lemma unat_ucast_u32: "unat (ucast (w :: u32) :: u64) = unat w"
proof -
  have "unat w < 2 ^ 64" using unsigned_less [of w] by (rule less_trans) simp
  then show ?thesis by (simp add: unsigned_ucast_eq take_bit_nat_eq_self)
qed

lemma len64: "LENGTH(64) = 64"
  by simp

lemma total_size_fold:
  assumes "\<forall>e \<in> set es. wf_entry e"
    and "unat t + sum_list (map (\<lambda>e. 8 + length (e_path e) + length (e_data e)) es) < 2 ^ 64"
  shows "unat (fold (\<lambda>e t. t + 4 + ucast (name_len e) + 4 + ucast (e_len e)) es (t :: u64)) =
     unat t + sum_list (map (\<lambda>e. 8 + length (e_path e) + length (e_data e)) es)"
  using assms
proof (induction es arbitrary: t)
  case Nil
  show ?case by simp
next
  case (Cons e es)
  have e: "unat (ucast (name_len e) :: u64) = length (e_path e)" "unat (ucast (e_len e) :: u64) = length (e_data e)"
    using Cons.prems(1) by (simp_all add: unat_ucast_u32 unat_name_len wf_entry_def)
  have "t + 4 + ucast (name_len e) + 4 + ucast (e_len e) =
      word_of_nat (unat t + 8 + length (e_path e) + length (e_data e))"
    unfolding e [symmetric] by simp
  then have "unat (t + 4 + ucast (name_len e) + 4 + ucast (e_len e)) =
      take_bit 64 (unat t + 8 + length (e_path e) + length (e_data e))"
    by (simp only: unsigned_of_nat len64 of_nat_id)
  also have "\<dots> = unat t + 8 + length (e_path e) + length (e_data e)"
    using Cons.prems(2) by (intro take_bit_nat_eq_self) simp
  finally have "unat (t + 4 + ucast (name_len e) + 4 + ucast (e_len e)) =
      unat t + 8 + length (e_path e) + length (e_data e)" .
  then show ?case using Cons by simp
qed

lemma length_pack_entry: "wf_entry e \<Longrightarrow> length (pack_entry e) = 8 + length (e_path e) + length (e_data e)"
  by (simp add: pack_entry_wf)

lemma length_packed:
  "\<forall>e \<in> set es. wf_entry e \<Longrightarrow>
     length (concat (map pack_entry es)) = sum_list (map (\<lambda>e. 8 + length (e_path e) + length (e_data e)) es)"
  by (induction es) (simp_all add: length_pack_entry)

lemma packed_size_qsort: "packed_size (qsort es) = packed_size es"
proof -
  have ins: "sum_list (map f (insert_entry e xs)) = f e + sum_list (map f xs)" for f :: "file_entry \<Rightarrow> nat" and e xs
    by (induction xs) simp_all
  have "sum_list (map f (qsort es)) = sum_list (map f es)" for f :: "file_entry \<Rightarrow> nat"
    by (induction es) (simp_all add: ins)
  then show ?thesis by (simp add: packed_size_def)
qed

section \<open>Packing\<close>

definition sample_entry :: "string \<Rightarrow> bytes \<Rightarrow> file_entry" where
  "sample_entry p d = \<lparr>e_path = p, e_data = d, e_len = word_of_nat (length d)\<rparr>"

definition sample_env :: packer_env where
  "sample_env = \<lparr>disk = \<lambda>p. if p = ''a.js'' then Some \<lparr>d_seek = True, d_tell = 2, d_content = [7, 8]\<rparr> else None,
     alloc_ok = \<lambda>_ _. True, can_create = \<lambda>_. True, compressBound = \<lambda>n. n + 20, compress2 = \<lambda>d _. Some d,
     written = \<lambda>_ text. text\<rparr>"

text \<open>
  C12. What \<open>bundle_pack\<close> writes fills the buffer it computed, byte for byte, and the
  reference decoder reads it back as the names and contents of all entries, sorted by name.
\<close>

theorem bundle_pack_roundtrip:
  assumes "\<forall>e \<in> set (entries b). wf_entry e" "count b < 2 ^ 32" "packed_size (entries b) < 2 ^ 64"
    and "run_state (bundle_pack E b) k = (Some (packed, tot), k')"
  shows "length packed = unat tot \<and> length packed = packed_size (entries b) \<and>
     unpack_bundle packed = Some (map entry_of (qsort (entries b))) \<and>
     sorted (map e_path (qsort (entries b))) \<and> set (qsort (entries b)) = set (entries b)"
proof -
  let ?es = "qsort (entries b)"
  have wf: "\<forall>e \<in> set ?es. wf_entry e" using assms(1) by simp
  have packed: "packed = le32 (word_of_nat (length ?es)) @ concat (map pack_entry ?es)"
    and tot: "tot = total_size ?es"
    using assms(4) by (auto simp: bundle_pack_def pk_malloc_def Let_def split: if_splits)
  have size: "4 + sum_list (map (\<lambda>e. 8 + length (e_path e) + length (e_data e)) ?es) = packed_size (entries b)"
    using packed_size_qsort [of "entries b"] by (simp add: packed_size_def)
  have len: "length packed = packed_size (entries b)"
    using size by (simp add: packed length_packed [OF wf])
  have "unat tot = packed_size (entries b)"
    using total_size_fold [OF wf, of 4] assms(3) size by (simp add: tot total_size_def)
  moreover have "unpack_bundle packed = Some (map entry_of ?es)"
    using unpack_pack [OF wf, of "[]"] assms(2) by (simp add: packed unpack_bundle_def unat_of_nat)
  moreover have "sorted (map e_path ?es)"
    using assms(1) by (intro qsort_sorted) (simp add: wf_entry_def)
  ultimately show ?thesis using len by simp
qed

theorem bundle_pack_roundtrip_witness:
  "\<exists>packed tot k'.
     run_state (bundle_pack sample_env \<lparr>entries = [sample_entry ''b'' [1], sample_entry ''a'' []], capacity = 2\<rparr>) 0 =
       (Some (packed, tot), k') \<and>
     unpack_bundle packed = Some [(map byte_of_char ''a'', []), (map byte_of_char ''b'', [1])]"
proof -
  let ?b = "\<lparr>entries = [sample_entry ''b'' [1], sample_entry ''a'' []], capacity = 2\<rparr>"
  obtain packed tot k' where run: "run_state (bundle_pack sample_env ?b) 0 = (Some (packed, tot), k')"
    by (simp add: bundle_pack_def pk_malloc_def sample_env_def Let_def)
  have "unpack_bundle packed = Some (map entry_of (qsort (entries ?b)))"
    using bundle_pack_roundtrip [OF _ _ _ run]
    by (simp add: sample_entry_def wf_entry_def nul_free_def max_file_size_def packed_size_def)
  then have "unpack_bundle packed = Some [(map byte_of_char ''a'', []), (map byte_of_char ''b'', [1])]"
    by (simp add: sample_entry_def compare_entries_def entry_of_def)
  with run show ?thesis by blast
qed

text \<open>
  C29. The bundle is deterministic: for files with different names the packed bytes do not
  depend on the order of the command line.
\<close>

theorem bundle_pack_deterministic:
  assumes "\<forall>e \<in> set (entries b). wf_entry e" "distinct (map e_path (entries b))"
    and "set (entries b') = set (entries b)" "distinct (map e_path (entries b'))"
  shows "bundle_pack E b' = bundle_pack E b"
proof -
  have wf: "\<forall>e \<in> set (entries b). nul_free (e_path e)" "\<forall>e \<in> set (entries b'). nul_free (e_path e)"
    using assms(1,3) by (simp_all add: wf_entry_def)
  have "qsort (entries b') = qsort (entries b)"
    using assms qsort_sorted [OF wf(2)] qsort_distinct [OF assms(4)]
    by (intro qsort_any [OF wf(1)]) simp_all
  then show ?thesis by (simp add: bundle_pack_def)
qed

theorem bundle_pack_deterministic_witness:
  "bundle_pack sample_env \<lparr>entries = [sample_entry ''b'' [1], sample_entry ''a'' []], capacity = 2\<rparr> =
   bundle_pack sample_env \<lparr>entries = [sample_entry ''a'' [], sample_entry ''b'' [1]], capacity = 2\<rparr>"
  by (rule bundle_pack_deterministic)
     (auto simp: sample_entry_def wf_entry_def nul_free_def max_file_size_def)

section \<open>Collecting\<close>

lemma should_skip_iff:
  assumes "nul_free p"
  shows "should_skip_file p \<longleftrightarrow> (\<exists>q. p = q @ ''.js.map'')"
proof -
  have "nul_free (drop n p)" for n using assms by (auto simp: nul_free_def dest: in_set_dropD)
  then have "should_skip_file p \<longleftrightarrow> 7 \<le> length p \<and> drop (length p - 7) p = ''.js.map''"
    by (simp add: should_skip_file_def Let_def strcmp_eq nul_free_def eval_nat_numeral)
  also have "\<dots> \<longleftrightarrow> (\<exists>q. p = q @ ''.js.map'')"
  proof
    assume "7 \<le> length p \<and> drop (length p - 7) p = ''.js.map''"
    then have "p = take (length p - 7) p @ ''.js.map''" by (metis append_take_drop_id)
    then show "\<exists>q. p = q @ ''.js.map''" by blast
  qed auto
  finally show ?thesis .
qed

text \<open>The entry a file becomes, and what the file must be for that.\<close>

definition packed_file :: "packer_env \<Rightarrow> string \<Rightarrow> file_entry option" where
  "packed_file E p =
     (case disk E p of
        None \<Rightarrow> None
      | Some f \<Rightarrow>
          if d_seek f \<and> 0 \<le> d_tell f \<and> d_tell f \<le> max_file_size \<and> nat (d_tell f) \<le> length (d_content f)
          then Some \<lparr>e_path = p, e_data = take (nat (d_tell f)) (d_content f), e_len = word_of_int (d_tell f)\<rparr>
          else None)"

lemma packed_file_wf:
  assumes "packed_file E p = Some e" "nul_free p" "length p < 2 ^ 32"
  shows "wf_entry e" "e_path e = p"
proof -
  obtain f :: disk_file where f: "0 \<le> d_tell f" "d_tell f \<le> max_file_size" "nat (d_tell f) \<le> length (d_content f)"
    and e: "e = \<lparr>e_path = p, e_data = take (nat (d_tell f)) (d_content f), e_len = word_of_int (d_tell f)\<rparr>"
  proof -
    obtain f where "disk E p = Some f" using assms(1) by (auto simp: packed_file_def split: option.splits)
    with assms(1) that [of f] show thesis by (auto simp: packed_file_def split: if_splits)
  qed
  have "unat (word_of_int (d_tell f) :: u32) = nat (d_tell f)"
    using f(1,2) by (simp add: unat_eq_nat_uint uint_word_of_int max_file_size_def)
  then show "wf_entry e" "e_path e = p" using assms f e by (simp_all add: wf_entry_def)
qed

lemma bundle_add_file_Some:
  assumes "run_state (bundle_add_file E b p) k = (Some b', k')"
  shows "\<exists>e. packed_file E p = Some e \<and> count b < capacity b \<and> b' = b\<lparr>entries := entries b @ [e]\<rparr>"
  using assms
  by (auto simp: bundle_add_file_def packed_file_def pk_malloc_def Let_def
      split: if_splits option.splits)

text \<open>The arguments of the file loop that end up in the bundle.\<close>

definition packable :: "string list \<Rightarrow> string list" where
  "packable as = filter (\<lambda>a. take 1 a \<noteq> ''-'' \<and> \<not> should_skip_file a) as"

lemma add_files_Some:
  "run_state (add_files E as b) k = (Some b', k') \<Longrightarrow>
     \<exists>es. map (packed_file E) (packable as) = map Some es \<and>
       b' = b\<lparr>entries := entries b @ es\<rparr> \<and> (count b \<le> capacity b \<longrightarrow> count b' \<le> capacity b')"
proof (induction as arbitrary: b k)
  case Nil
  then show ?case by (auto simp: packable_def)
next
  case (Cons a as)
  show ?case
  proof (cases "take 1 a \<noteq> ''-'' \<and> \<not> should_skip_file a")
    case False
    then have "run_state (add_files E as b) k = (Some b', k')" "packable (a # as) = packable as"
      using Cons.prems by (auto simp: packable_def split: if_splits)
    then show ?thesis using Cons.IH by metis
  next
    case True
    obtain r k1 where add: "run_state (bundle_add_file E b a) k = (r, k1)" by (rule prod.exhaust)
    then obtain b1 where b1: "r = Some b1" "run_state (add_files E as b1) k1 = (Some b', k')"
      using Cons.prems True by (cases r) auto
    obtain e where e: "packed_file E a = Some e" "count b < capacity b" "b1 = b\<lparr>entries := entries b @ [e]\<rparr>"
      using bundle_add_file_Some add b1(1) by blast
    obtain es where es: "map (packed_file E) (packable as) = map Some es"
        "b' = b1\<lparr>entries := entries b1 @ es\<rparr>" "count b1 \<le> capacity b1 \<longrightarrow> count b' \<le> capacity b'"
      using Cons.IH b1(2) by blast
    have "packable (a # as) = a # packable as" using True by (simp add: packable_def)
    then have "map (packed_file E) (packable (a # as)) = map Some (e # es)" using e(1) es(1) by simp
    moreover have "b' = b\<lparr>entries := entries b @ (e # es)\<rparr>" using e(3) es(2) by simp
    moreover have "count b' \<le> capacity b'" using e(2,3) es(3) by simp
    ultimately show ?thesis by blast
  qed
qed

section \<open>The C array\<close>

text \<open>The tokens of an initialiser: the items with commas between them.\<close>

fun item_tokens :: "bytes \<Rightarrow> string list" where
  "item_tokens [] = []"
| "item_tokens [b] = [''0x'' @ hex2 b]"
| "item_tokens (b # c # bs) = (''0x'' @ hex2 b) # '','' # item_tokens (c # bs)"

lemma nibbles: "unat (b :: u8) div 16 < 16" "unat b mod 16 < 16"
  using unat_byte_less [of b] by (simp_all add: less_mult_imp_div_less)

lemma ident_digit_char [simp]: "d < 36 \<Longrightarrow> ident_char (digit_char d)"
  by (simp add: ident_char_def digit_value_digit_char)

lemma hex_word: "list_all ident_char (''0x'' @ hex2 b)"
  using nibbles [of b] by (simp add: hex2_def) (simp add: ident_char_def digit_value_def)

lemma byte_token_hex: "byte_token (''0x'' @ hex2 b) = Some b"
proof -
  let ?h = "unat b div 16" and ?l = "unat b mod 16"
  have "?h < 36" "?l < 36" "16 * ?h + ?l = unat b" using nibbles [of b] by simp_all
  then have "number_in 16 (hex2 b) = Some (unat b)"
    using nibbles [of b] by (simp add: number_in_def hex2_def digit_value_digit_char undigits_def mult.commute)
  then show ?thesis using unat_byte_less [of b] by (simp add: byte_token_def)
qed

lemma tokens_items:
  "n = i + length bs \<Longrightarrow>
     tokens (array_items n i bs @ CHR 0x0A # cs) = item_tokens bs @ tokens (CHR 0x0A # cs)"
proof (induction bs arbitrary: i)
  case (Cons b bs)
  have indent: "tokens ((if i mod 12 = 0 then [CHR 0x0A, CHR 0x09] else []) @ xs) = tokens xs" for xs
    by (simp add: tokens_space is_space_def)
  have item: "tokens ((''0x'' @ hex2 b) @ xs) = (''0x'' @ hex2 b) # tokens xs"
    if "\<not> ident_char (hd xs)" for xs
    using that by (intro tokens_word hex_word) simp_all
  have tail: "tokens (array_items n (Suc i) bs @ CHR 0x0A # cs) = item_tokens bs @ tokens (CHR 0x0A # cs)"
    using Cons by simp
  have nl: "\<not> ident_char (CHR 0x0A)" and comma: "\<not> ident_char (CHR '','')"
    by (simp_all add: ident_char_def digit_value_def)
  show ?case
  proof (cases bs)
    case Nil
    then show ?thesis using Cons.prems item [of "CHR 0x0A # cs"] indent nl by simp
  next
    case (Cons c bs')
    let ?rest = "array_items n (Suc i) bs @ CHR 0x0A # cs"
    have "tokens ('', '' @ ?rest) = '','' # tokens ?rest"
      using comma by (simp add: tokens_punct tokens_space is_space_def)
    moreover have "i < n - 1" using Cons \<open>n = i + length (b # bs)\<close> by simp
    ultimately show ?thesis
      using Cons item [of "'', '' @ ?rest"] indent comma tail by (simp del: array_items.simps add: array_items.simps(2))
  qed
qed simp

lemma read_item_tokens: "bs \<noteq> [] \<Longrightarrow> read_items (item_tokens bs @ ''}'' # ts) = Some (bs, ts)"
  by (induction bs rule: item_tokens.induct) (simp_all add: byte_token_hex [simplified])

lemma number_in_decimal: "number_in 10 (decimal n) = Some n"
  using decimal_digits [of _ n] by (fastforce simp: number_in_def decimal_read_back digit_value_digit_char)

lemma decimal_word: "list_all ident_char (decimal n)"
  using decimal_digits [of _ n] by (fastforce simp: list_all_iff)

lemma tokens_source:
  assumes "c_identifier symbol"
  shows "tokens (source_text symbol data) =
     [''const'', ''unsigned'', ''char'', symbol, ''['', '']'', ''='', ''{''] @ item_tokens data @
     [''}'', '';'', ''const'', ''size_t'', symbol @ ''_len'', ''='', decimal (length data), '';'']"
proof -
  note lex = tokens.simps(2) is_space_def ident_char_def digit_value_def
  have head: "tokens (''/* Auto-generated by asset_packer - do not edit */'' @ nl @ nl @
      ''#include <stddef.h>'' @ nl @ nl @ ''const unsigned char '' @ cs) =
      [''const'', ''unsigned'', ''char''] @ tokens cs" for cs
    by (simp add: nl_def lex)
  have name: "tokens (symbol @ ''[] = {'' @ cs) = [symbol, ''['', '']'', ''='', ''{''] @ tokens cs" for cs
    using tokens_word [of symbol "''[] = {'' @ cs"] c_identifier_word [OF assms] by (simp add: lex)
  have middle: "tokens (CHR 0x0A # ''};'' @ nl @ nl @ ''const size_t '' @ cs) =
      [''}'', '';'', ''const'', ''size_t''] @ tokens cs" for cs
    by (simp add: nl_def lex)
  have len: "tokens ((symbol @ ''_len'') @ '' = '' @ cs) = [symbol @ ''_len'', ''=''] @ tokens cs" for cs
    using tokens_word [of "symbol @ ''_len''" "'' = '' @ cs"] c_identifier_word [OF assms] by (simp add: lex)
  have num: "tokens (decimal n @ '';'' @ nl) = [decimal n, '';'']" for n
    using tokens_word [OF _ decimal_word, of n "'';'' @ nl"] by (simp add: nl_def lex)
  have "source_text symbol data = ''/* Auto-generated by asset_packer - do not edit */'' @ nl @ nl @
      ''#include <stddef.h>'' @ nl @ nl @ ''const unsigned char '' @ symbol @ ''[] = {'' @
      array_items (length data) 0 data @ CHR 0x0A # ''};'' @ nl @ nl @ ''const size_t '' @
      (symbol @ ''_len'') @ '' = '' @ decimal (length data) @ '';'' @ nl"
    by (simp add: source_text_def nl_def)
  then show ?thesis by (simp only: head name tokens_items add_0 middle len num) simp
qed

lemma read_source_text:
  "c_identifier symbol \<Longrightarrow> data \<noteq> [] \<Longrightarrow>
     read_source (source_text symbol data) = Some (symbol, data, length data)"
  by (simp add: read_source_def tokens_source expect_def read_item_tokens number_in_decimal)

text \<open>
  C28. The generated C source is C that defines exactly the two constants it should: the
  reader of the grammar, which refuses an array with a missing comma or a missing brace, finds
  one array with the given name whose items are the bytes of the compressed bundle, and one
  constant with their number, and nothing else. (An empty array would not be C.)
\<close>

theorem source_text_roundtrip:
  assumes "c_identifier symbol" "data \<noteq> []"
  shows "read_source (source_text symbol data) = Some (symbol, data, length data)"
  using assms by (rule read_source_text)

theorem source_text_roundtrip_witness:
  "read_source (source_text ''assets_blob'' [0x78, 0xDA, 0x03]) = Some (''assets_blob'', [0x78, 0xDA, 0x03], 3)"
  using source_text_roundtrip [of "''assets_blob''" "[0x78, 0xDA, 0x03]"]
  by (simp add: c_identifier_def ident_char_def digit_value_def is_digit_def)

section \<open>The tool\<close>

lemma parse_args_level:
  "parse_args i as o' = Some opts \<Longrightarrow> 1 \<le> o_level o' \<and> o_level o' \<le> 9 \<Longrightarrow>
     1 \<le> o_level opts \<and> o_level opts \<le> 9"
proof (induction i as o' rule: parse_args.induct)
  case (2 i a as o')
  consider (src) "a = ''--output-source''" | (hdr) "a = ''--output-header''"
    | (sym) "a = ''--symbol-name''" | (lev) "a = ''--compression-level''"
    | (other) "a \<noteq> ''--output-source''" "a \<noteq> ''--output-header''" "a \<noteq> ''--symbol-name''"
        "a \<noteq> ''--compression-level''" by blast
  then show ?case
  proof cases
    case other
    let ?o = "o'\<lparr>o_first := (if o_first o' < 0 then i else o_first o'), o_num := o_num o' + 1\<rparr>"
    have "take 1 a \<noteq> ''-''" and rest: "parse_args (i + 1) as ?o = Some opts"
      using "2.prems"(1) other by (simp_all only: parse_args.simps if_False split: if_split_asm) simp_all
    then show ?thesis using "2.IH"(5) [OF other \<open>take 1 a \<noteq> ''-''\<close> rest] "2.prems"(2) by simp
  next
    case src
    with "2.prems" "2.IH"(1) [OF src] show ?thesis by (cases as) simp_all
  next
    case hdr
    with "2.prems" "2.IH"(2) show ?thesis by (cases as) simp_all
  next
    case sym
    with "2.prems" "2.IH"(3) show ?thesis by (cases as) simp_all
  next
    case lev
    with "2.prems" "2.IH"(4) show ?thesis by (cases as) (simp_all split: if_splits)
  qed
qed simp

lemma packed_files_wf:
  assumes "map (packed_file E) ps = map Some es" "\<forall>p \<in> set ps. nul_free p \<and> length p < 2 ^ 32"
  shows "(\<forall>e \<in> set es. wf_entry e) \<and> map e_path es = ps"
  using assms
proof (induction ps arbitrary: es)
  case (Cons p ps)
  then obtain e es' where "es = e # es'" "packed_file E p = Some e" "map (packed_file E) ps = map Some es'"
    by (cases es) auto
  then show ?case using Cons packed_file_wf by fastforce
qed simp

lemma bundle_pack_Some:
  "run_state (bundle_pack E b) k = (Some (d, n), k') \<Longrightarrow>
     d = le32 (word_of_nat (count b)) @ concat (map pack_entry (qsort (entries b)))"
  by (auto simp: bundle_pack_def pk_malloc_def Let_def split: if_splits)

text \<open>The bundle the tool builds from its arguments, for a run that exits with 0.\<close>

lemma packer_main_run:
  assumes "run_state (packer_main E argv) k = ((0, files), k')"
  shows "\<exists>opts src hdr b k1 k2 packed n z. parse_args 1 (tl argv) default_options = Some opts \<and>
     o_source opts = Some src \<and> o_header opts = Some hdr \<and>
     run_state (add_files E (drop (nat (o_first opts)) argv)
       \<lparr>entries = [], capacity = unat (word_of_int (o_num opts) :: u32)\<rparr>) k1 = (Some b, k2) \<and>
     run_state (bundle_pack E b) k2 = (Some (packed, n), Suc k2) \<and>
     compress2 E packed (o_level opts) = Some z \<and>
     files = [(src, written E src (source_text (o_symbol opts) z)), (hdr, written E hdr (header_text (o_symbol opts)))]"
proof -
  obtain opts src hdr where o': "parse_args 1 (tl argv) default_options = Some opts"
      "o_source opts = Some src" "o_header opts = Some hdr" "o_num opts \<noteq> 0"
    using assms by (auto simp: packer_main_def split: option.splits if_splits)
  let ?b0 = "\<lparr>entries = [], capacity = unat (word_of_int (o_num opts) :: u32)\<rparr>"
  have al: "alloc_ok E k (24 * unat (word_of_int (o_num opts) :: u32))"
    using assms o' by (auto simp: packer_main_def bundle_init_def pk_malloc_def split: if_splits)
  obtain r k2 where add: "run_state (add_files E (drop (nat (o_first opts)) argv) ?b0) (Suc k) = (r, k2)"
    by (rule prod.exhaust)
  then obtain b where b: "r = Some b"
    using assms o' al by (cases r) (auto simp: packer_main_def bundle_init_def pk_malloc_def)
  obtain d n where pack: "run_state (bundle_pack E b) k2 = (Some (d, n), Suc k2)"
    using assms o' al add b
    by (auto simp: packer_main_def bundle_init_def pk_malloc_def bundle_pack_def Let_def split: if_splits)
  obtain z where z: "compress2 E d (o_level opts) = Some z"
      "files = [(src, written E src (source_text (o_symbol opts) z)), (hdr, written E hdr (header_text (o_symbol opts)))]"
    using assms o' al add b pack
    by (auto simp: packer_main_def bundle_init_def pk_malloc_def compress_bundle_def write_c_source_def Let_def
        split: if_splits option.splits prod.splits)
  show ?thesis using o' add b pack z by blast
qed

lemma unpack_pack_bundle:
  assumes "\<forall>e \<in> set (entries b). wf_entry e" "count b < 2 ^ 32"
    and "run_state (bundle_pack E b) k = (Some (d, n), k')"
  shows "unpack_bundle d = Some (map entry_of (qsort (entries b)))"
proof -
  have "\<forall>e \<in> set (qsort (entries b)). wf_entry e" using assms(1) by simp
  then show ?thesis
    using unpack_pack [of "qsort (entries b)" "[]"] bundle_pack_Some [OF assms(3)] assms(2)
    by (simp add: unpack_bundle_def unat_of_nat)
qed

text \<open>The results of the writes decide nothing: neither the exit code nor what is tried.\<close>

lemma pk_malloc_written: "pk_malloc (E\<lparr>written := w\<rparr>) = pk_malloc E"
  by (intro ext) (simp add: pk_malloc_def)

lemma add_files_written: "add_files (E\<lparr>written := w\<rparr>) as = add_files E as"
proof (induction as)
  case (Cons a as)
  have "bundle_add_file (E\<lparr>written := w\<rparr>) b a = bundle_add_file E b a" for b
    unfolding bundle_add_file_def pk_malloc_written by simp
  with Cons show ?case by (intro ext) simp
qed (simp add: fun_eq_iff)

lemma packer_main_written:
  assumes "run_state (packer_main E argv) k = ((0, files), k')"
  shows "\<exists>files'. run_state (packer_main (E\<lparr>written := w\<rparr>) argv) k = ((0, files'), k')"
  using assms
  by (auto simp: packer_main_def bundle_init_def pk_malloc_def bundle_pack_def compress_bundle_def
      write_c_source_def add_files_written Let_def split: option.splits if_splits prod.splits)

text \<open>
  C27. When the tool exits with 0 it has created both files and handed the stream of the first
  the C source for the compression of a bundle that decodes to exactly the named files that
  are not source maps, with the contents they have on disk, sorted by name; the compression
  level was 1 to 9. Where that stream kept the whole text, the file reads back as C that
  defines the compressed bundle. But the exit code is no evidence that it did: had the writes
  kept anything else, nothing at all included, the tool would have exited with 0 too.
\<close>

theorem packer_main_output:
  assumes "run_state (packer_main E argv) k = ((0, files), k')"
    and "\<forall>a \<in> set argv. nul_free a \<and> length a < 2 ^ 32"
  shows "\<exists>opts src hdr es packed z. parse_args 1 (tl argv) default_options = Some opts \<and>
     o_source opts = Some src \<and> o_header opts = Some hdr \<and> 1 \<le> o_level opts \<and> o_level opts \<le> 9 \<and>
     map (packed_file E) (packable (drop (nat (o_first opts)) argv)) = map Some es \<and>
     unpack_bundle packed = Some (map entry_of (qsort es)) \<and>
     compress2 E packed (o_level opts) = Some z \<and>
     files = [(src, written E src (source_text (o_symbol opts) z)), (hdr, written E hdr (header_text (o_symbol opts)))] \<and>
     (c_identifier (o_symbol opts) \<and> z \<noteq> [] \<and>
        written E src (source_text (o_symbol opts) z) = source_text (o_symbol opts) z \<longrightarrow>
      read_source (snd (hd files)) = Some (o_symbol opts, z, length z)) \<and>
     (\<forall>w. \<exists>files'. run_state (packer_main (E\<lparr>written := w\<rparr>) argv) k = ((0, files'), k'))"
proof -
  obtain opts src hdr b k1 k2 packed n z where run: "parse_args 1 (tl argv) default_options = Some opts"
      "o_source opts = Some src" "o_header opts = Some hdr"
      "run_state (add_files E (drop (nat (o_first opts)) argv)
         \<lparr>entries = [], capacity = unat (word_of_int (o_num opts) :: u32)\<rparr>) k1 = (Some b, k2)"
      "run_state (bundle_pack E b) k2 = (Some (packed, n), Suc k2)"
      "compress2 E packed (o_level opts) = Some z"
      "files = [(src, written E src (source_text (o_symbol opts) z)), (hdr, written E hdr (header_text (o_symbol opts)))]"
    using packer_main_run [OF assms(1)] by blast
  obtain es where es: "map (packed_file E) (packable (drop (nat (o_first opts)) argv)) = map Some es"
      "entries b = es" "length es \<le> unat (word_of_int (o_num opts) :: u32)"
    using add_files_Some [OF run(4)] by auto
  have "\<forall>p \<in> set (packable (drop (nat (o_first opts)) argv)). nul_free p \<and> length p < 2 ^ 32"
    using assms(2) by (auto simp: packable_def dest: in_set_dropD)
  with es(1) have wf: "\<forall>e \<in> set es. wf_entry e" using packed_files_wf by simp
  have "length es < 2 ^ 32" 
    using es(3) unsigned_less [of "word_of_int (o_num opts) :: u32", where 'a = nat] by simp
  then have "unpack_bundle packed = Some (map entry_of (qsort es))"
    using unpack_pack_bundle [OF _ _ run(5)] wf es(2) by simp
  moreover have "1 \<le> o_level opts \<and> o_level opts \<le> 9"
    using parse_args_level [OF run(1)] by (simp add: default_options_def)
  moreover have "c_identifier (o_symbol opts) \<and> z \<noteq> [] \<longrightarrow>
      read_source (source_text (o_symbol opts) z) = Some (o_symbol opts, z, length z)"
    using read_source_text by blast
  ultimately show ?thesis
    using run(1-3) run(6,7) es(1) packer_main_written [OF assms(1)]
    by (intro exI [of _ opts] exI [of _ src] exI [of _ hdr] exI [of _ es] exI [of _ packed] exI [of _ z]
        conjI) simp_all
qed

text \<open>
  Options must come before the files: a file followed by options makes the tool take the
  options' arguments for files too, and it fails for lack of capacity, whatever is on disk.
\<close>

lemma packer_options_after_file:
  "fst (fst (run_state (packer_main E
     [''asset_packer'', ''a.js'', ''--output-source'', ''o.c'', ''--output-header'', ''o.h'']) k)) = 1"
proof -
  let ?argv = "[''asset_packer'', ''a.js'', ''--output-source'', ''o.c'', ''--output-header'', ''o.h'']"
  have opts: "parse_args 1 (tl ?argv) default_options = Some (default_options
      \<lparr>o_source := Some ''o.c'', o_header := Some ''o.h'', o_first := 1, o_num := 1\<rparr>)"
    by (simp add: default_options_def)
  have "fst (run_state (add_files E (drop 1 ?argv) \<lparr>entries = [], capacity = 1\<rparr>) j) = None" for j
  proof (rule ccontr)
    assume "\<not> ?thesis"
    then obtain b where "run_state (add_files E (drop 1 ?argv) \<lparr>entries = [], capacity = 1\<rparr>) j =
        (Some b, snd (run_state (add_files E (drop 1 ?argv) \<lparr>entries = [], capacity = 1\<rparr>) j))"
      by (metis not_Some_eq prod.collapse)
    from add_files_Some [OF this] obtain es where
      es: "map (packed_file E) (packable (drop 1 ?argv)) = map Some es" "length es \<le> 1"
      by auto
    have "packable (drop 1 ?argv) = [''a.js'', ''o.c'', ''o.h'']"
      by (simp add: packable_def should_skip_file_def Let_def)
    then have "length es = 3" using es(1) by (metis length_map length_Cons list.size(3) numeral_3_eq_3)
    with es(2) show False by simp
  qed
  then show ?thesis
    unfolding packer_main_def opts
    by (simp add: default_options_def bundle_init_def pk_malloc_def case_prod_unfold del: add_files.simps)
qed

theorem packer_main_output_witness:
  "\<exists>files k' es packed z. run_state (packer_main sample_env
     [''asset_packer'', ''--output-source'', ''o.c'', ''--output-header'', ''o.h'', ''a.js'', ''a.js.map'']) 0 =
       ((0, files), k') \<and>
     map (packed_file sample_env) (packable [''a.js'', ''a.js.map'']) = map Some es \<and>
     unpack_bundle packed = Some (map entry_of (qsort es)) \<and>
     compress2 sample_env packed 9 = Some z \<and>
     files = [(''o.c'', source_text ''assets_blob'' z), (''o.h'', header_text ''assets_blob'')] \<and>
     read_source (snd (hd files)) = Some (''assets_blob'', z, length z)"
proof -
  let ?argv = "[''asset_packer'', ''--output-source'', ''o.c'', ''--output-header'', ''o.h'', ''a.js'', ''a.js.map'']"
  have opts: "parse_args 1 (tl ?argv) default_options = Some (default_options
      \<lparr>o_source := Some ''o.c'', o_header := Some ''o.h'', o_first := 5, o_num := 2\<rparr>)"
    by (simp add: default_options_def)
  have "\<exists>files k'. run_state (packer_main sample_env ?argv) 0 = ((0, files), k')"
    unfolding packer_main_def opts
    by (simp add: default_options_def bundle_init_def pk_malloc_def sample_env_def should_skip_file_def
        bundle_add_file_def bundle_pack_def compress_bundle_def write_c_source_def Let_def max_file_size_def)
  then obtain files k' where run: "run_state (packer_main sample_env ?argv) 0 = ((0, files), k')" by blast
  have "\<forall>a \<in> set ?argv. nul_free a \<and> length a < 2 ^ 32" by (simp add: nul_free_def)
  from packer_main_output [OF run this] obtain o' src hdr es packed z where out:
    "Some (default_options\<lparr>o_source := Some ''o.c'', o_header := Some ''o.h'', o_first := 5, o_num := 2\<rparr>) = Some o'"
    "o_source o' = Some src" "o_header o' = Some hdr"
    "map (packed_file sample_env) (packable (drop (nat (o_first o')) ?argv)) = map Some es"
    "unpack_bundle packed = Some (map entry_of (qsort es))" "compress2 sample_env packed (o_level o') = Some z"
    "files = [(src, written sample_env src (source_text (o_symbol o') z)),
       (hdr, written sample_env hdr (header_text (o_symbol o')))]"
    "c_identifier (o_symbol o') \<and> z \<noteq> [] \<and>
       written sample_env src (source_text (o_symbol o') z) = source_text (o_symbol o') z \<longrightarrow>
     read_source (snd (hd files)) = Some (o_symbol o', z, length z)"
    unfolding opts by blast
  have o': "o_symbol o' = ''assets_blob''" "o_level o' = 9" "src = ''o.c''" "hdr = ''o.h''"
      "drop (nat (o_first o')) ?argv = [''a.js'', ''a.js.map'']"
    using out(1-3) by (auto simp: default_options_def)
  have kept: "written sample_env p t = t" for p t by (simp add: sample_env_def)
  have "z \<noteq> []" using out(5,6) by (auto simp: sample_env_def unpack_bundle_def)
  moreover have "c_identifier ''assets_blob''"
    by (simp add: c_identifier_def ident_char_def digit_value_def is_digit_def)
  ultimately have "read_source (snd (hd files)) = Some (''assets_blob'', z, length z)"
    using out(8) kept o'(1) by simp
  with run out(4-7) show ?thesis unfolding o' kept by blast
qed

end
