(* ===== verification/Migrate.thy ===== *)
theory Migrate
  imports Store_Props Bundle_Format Sha256
begin

text \<open>
  The asset migration of hbf/db/overlay_fs.c: \<open>compute_bundle_id\<close> and
  \<open>overlay_fs_migrate_assets\<close>, which decompresses the embedded bundle and writes every entry
  through \<open>overlay_fs_write\<close> inside one transaction. zlib's \<open>uncompress\<close> is a parameter: from
  the size of the output buffer and the input to the output, or an error. An outcome \<open>None\<close>
  is undefined behaviour of the C code: a \<open>memcpy\<close> past an allocation.
\<close>

section \<open>The bundle id\<close>

text \<open>The context is a local variable with arbitrary contents.\<close>

definition compute_bundle_id :: "sha256_ctx \<Rightarrow> bytes \<Rightarrow> string" where
  "compute_bundle_id ctx data = concat (map hex2 (sha256_digest ctx data))"

section \<open>The migration\<close>

datatype migrate_status =
    MIGRATE_OK
  | MIGRATE_ERR_DECOMPRESS
  | MIGRATE_ERR_DB
  | MIGRATE_ERR_ALREADY_APPLIED
  | MIGRATE_ERR_CORRUPT

text \<open>\<open>exec_sql_file(db, "ROLLBACK;")\<close>, its result ignored, and the return after it.\<close>

definition roll_back :: "env \<Rightarrow> migrate_status \<Rightarrow> migrate_status option dbm" where
  "roll_back E st = do { _ \<leftarrow> sq_rollback E; ret (Some st) }"

text \<open>The tail of the function: record the bundle and commit.\<close>

definition record_migration :: "env \<Rightarrow> string \<Rightarrow> int \<Rightarrow> migrate_status option dbm" where
  "record_migration E bundle_id migrated_count = do {
     ok \<leftarrow> sq_prepare E [''migrations''];
     if \<not> ok then roll_back E MIGRATE_ERR_DB
     else do {
       s \<leftarrow> State_Monad.get;
       finished \<leftarrow> sq_change E (insert_migration bundle_id (clock E (tick s)) migrated_count) (\<lambda>_ r. r);
       if \<not> finished then roll_back E MIGRATE_ERR_DB
       else do {
         committed \<leftarrow> sq_commit E;
         ret (Some (if committed then MIGRATE_OK else MIGRATE_ERR_DB))
       }
     }
   }"

text \<open>Reading one entry at \<open>pos = ptr - decompressed\<close>: name length, name, data, data length
  and the position after it, or \<open>None\<close> where the code finds the bundle truncated.\<close>

definition read_entry :: "bytes \<Rightarrow> nat \<Rightarrow> (u32 \<times> bytes \<times> bytes \<times> u32 \<times> nat) option" where
  "read_entry buf pos =
     (if pos + 4 > length buf then None
      else let name_len = read_u32 (drop pos buf); pos1 = pos + 4
      in if pos1 + unat name_len > length buf then None
      else let name = take (unat name_len) (drop pos1 buf); pos2 = pos1 + unat name_len
      in if pos2 + 4 > length buf then None
      else let data_len = read_u32 (drop pos2 buf); pos3 = pos2 + 4
      in if pos3 + unat data_len > length buf then None
      else Some (name_len, name, take (unat data_len) (drop pos3 buf), data_len, pos3 + unat data_len))"

text \<open>The loop with \<open>n\<close> entries left. \<open>malloc(name_len + 1)\<close> is computed in 32 bits; if it
  wraps, the \<open>memcpy\<close> of the name leaves the allocation.\<close>

primrec migrate_entries ::
    "env \<Rightarrow> bytes \<Rightarrow> string \<Rightarrow> nat \<Rightarrow> nat \<Rightarrow> int \<Rightarrow> migrate_status option dbm" where
  "migrate_entries E buf bundle_id 0 pos migrated = record_migration E bundle_id migrated"
| "migrate_entries E buf bundle_id (Suc n) pos migrated =
     (case read_entry buf pos of
        None \<Rightarrow> roll_back E MIGRATE_ERR_CORRUPT
      | Some (nlen, name, data, dlen, pos') \<Rightarrow> do {
          ok \<leftarrow> c_malloc E;
          if \<not> ok then roll_back E MIGRATE_ERR_DB
          else if unat (nlen + 1) \<le> unat nlen then ret None
          else do {
            r \<leftarrow> overlay_fs_write E Main_db (Some (c_string (map char_of_byte name))) (Some data) (unat dlen);
            if r < 0 then roll_back E MIGRATE_ERR_DB
            else migrate_entries E buf bundle_id n pos' (migrated + 1)
          }
        })"

text \<open>After the decompression.\<close>

definition migrate_bundle :: "env \<Rightarrow> bytes \<Rightarrow> string \<Rightarrow> migrate_status option dbm" where
  "migrate_bundle E buf bundle_id =
     (if 4 > length buf then ret (Some MIGRATE_ERR_CORRUPT)
      else let num_entries = read_u32 buf
      in do {
        began \<leftarrow> sq_begin E;
        if \<not> began then ret (Some MIGRATE_ERR_DB)
        else migrate_entries E buf bundle_id (unat num_entries) 4 0
      })"

definition overlay_fs_migrate_assets ::
    "env \<Rightarrow> (nat \<Rightarrow> bytes \<Rightarrow> bytes option) \<Rightarrow> sha256_ctx \<Rightarrow> sqlite3_ptr \<Rightarrow> bytes option \<Rightarrow> nat \<Rightarrow>
     migrate_status option dbm" where
  "overlay_fs_migrate_assets E uncompress ctx db blob bundle_len =
     (case (db, blob) of
        (Main_db, Some b) \<Rightarrow>
          if bundle_len = 0 then ret (Some MIGRATE_ERR_DB)
          else let bundle = take bundle_len b; bundle_id = compute_bundle_id ctx bundle
          in do {
            ok \<leftarrow> sq_prepare E [''migrations''];
            if \<not> ok then ret (Some MIGRATE_ERR_DB)
            else do {
              r \<leftarrow> sq_select E (\<lambda>t. if select_migration bundle_id t then Some () else None);
              (case r of
                 Step_Row _ \<Rightarrow> ret (Some MIGRATE_ERR_ALREADY_APPLIED)
               | _ \<Rightarrow> do {
                   a \<leftarrow> c_malloc E;
                   if \<not> a then ret (Some MIGRATE_ERR_DECOMPRESS)
                   else (case uncompress (unat (word_of_nat bundle_len * 10 :: u64)) bundle of
                           None \<Rightarrow> ret (Some MIGRATE_ERR_DECOMPRESS)
                         | Some buf \<Rightarrow> migrate_bundle E buf bundle_id)
                 })
            }
          }
      | _ \<Rightarrow> ret (Some MIGRATE_ERR_DB))"

end
