(* ===== verification/Migrate_Props.thy ===== *)
theory Migrate_Props
  imports Migrate Bundle_Props
begin

text \<open>
  The properties of the asset migration: the loop follows the reference decoder, a migration
  is atomic, it is applied at most once, it cannot leave the buffers, and it installs exactly
  the files that \<open>asset_packer\<close> packed.
\<close>

section \<open>The loop and the decoder\<close>

definition file_entry_of :: "bytes \<times> bytes \<Rightarrow> string \<times> bytes" where
  "file_entry_of e = (c_string (map char_of_byte (fst e)), snd e)"

lemma take_field_at:
  "take_field (drop pos buf) =
     (if pos + 4 > length buf then None
      else if pos + 4 + unat (read_u32 (drop pos buf)) > length buf then None
      else Some (take (unat (read_u32 (drop pos buf))) (drop (pos + 4) buf),
                 drop (pos + 4 + unat (read_u32 (drop pos buf))) buf))"
proof (cases "pos + 4 > length buf")
  case True
  then have "length (drop pos buf) < 4" by simp
  with True show ?thesis by (simp add: take_field_None_short)
next
  case False
  let ?n = "unat (read_u32 (drop pos buf))"
  have "\<not> length (drop pos buf) < 4" using False by simp
  moreover have "length (drop 4 (drop pos buf)) < ?n \<longleftrightarrow> pos + 4 + ?n > length buf"
    using False by simp linarith
  moreover have "drop 4 (drop pos buf) = drop (pos + 4) buf"
    "drop ?n (drop (pos + 4) buf) = drop (pos + 4 + ?n) buf"
    by (simp_all add: add.commute)
  ultimately show ?thesis using False by (simp only: take_field_def Let_def if_False simp_thms)
qed

lemma read_entry_unpack:
  "unpack (Suc n) (drop pos buf) =
     (case read_entry buf pos of
        None \<Rightarrow> None
      | Some (nlen, name, data, dlen, pos') \<Rightarrow> map_option ((#) (name, data)) (unpack n (drop pos' buf)))"
  by (simp add: read_entry_def take_field_at Let_def)

lemma read_entry_lengths:
  "read_entry buf pos = Some (nlen, name, data, dlen, pos') \<Longrightarrow>
     length name = unat nlen \<and> length data = unat dlen \<and> pos + 8 + unat dlen \<le> pos' \<and> pos' \<le> length buf \<and>
     unat nlen < length buf"
  unfolding read_entry_def Let_def by (simp split: if_split_asm) auto

section \<open>Recording a migration\<close>

lemma migrations_update [simp]:
  "wf (t\<lparr>migrations := g\<rparr>) = wf t" "history (t\<lparr>migrations := g\<rparr>) = history t"
  by (simp_all add: wf_def wf_ids_def wf_versions_def wf_meta_def versions_of_def latest_meta_def)
    (rule history_rows; simp)

definition no_tx_fault :: "env \<Rightarrow> bool" where
  "no_tx_fault E \<longleftrightarrow> (\<forall>n. fault_at E n \<noteq> Tx_Fault)"

lemma no_tx_calm: "no_tx_fault E \<Longrightarrow> calm E s"
  by (simp add: no_tx_fault_def calm_def)

text \<open>A migration that did not succeed left the tables at \<open>BEGIN\<close> as what survives.\<close>

definition undone :: "tables \<Rightarrow> conn \<Rightarrow> bool" where
  "undone t0 s' \<longleftrightarrow> durable s' = t0 \<and> (saved s' = None \<or> saved s' = Some t0)"

definition migrated :: "string \<Rightarrow> int \<Rightarrow> (string \<times> bytes) list \<Rightarrow> tables \<Rightarrow> conn \<Rightarrow> bool" where
  "migrated bid k es t s' \<longleftrightarrow> saved s' = None \<and> wf (tabs s') \<and> \<not> select_migration bid t \<and>
     (\<exists>g. migrations (tabs s') = migrations t @ [g] \<and> g_bundle_id g = bid \<and> g_entries g = k + int (length es)) \<and>
     (\<forall>p. history (tabs s') p = history t p @ contents_for p es) \<and>
     t_tables (tabs s') = t_tables t \<and> t_views (tabs s') = t_views t"

lemma roll_back_undone:
  "no_tx_fault E \<Longrightarrow> saved s = Some t0 \<Longrightarrow> run_state (roll_back E st) s = (r, s') \<Longrightarrow>
     r = Some st \<and> undone t0 s'"
  using no_tx_calm [of E s]
  by (auto simp: roll_back_def undone_def durable_def split: if_splits)

lemma record_migration_outcome:
  assumes "no_tx_fault E" "saved s = Some t0" "wf (tabs s)"
    and "run_state (record_migration E bid k) s = (r, s')"
  shows "(r = Some MIGRATE_OK \<and> migrated bid k [] (tabs s) s') \<or> (r = Some MIGRATE_ERR_DB \<and> undone t0 s')"
proof (cases "fault_at E (tick s) = Fine \<and> available [''migrations''] (tabs s) \<and>
    fault_at E (Suc (tick s)) = Fine \<and> \<not> select_migration bid (tabs s)")
  case False
  then obtain s1 where "run_state (roll_back E MIGRATE_ERR_DB) s1 = (r, s')" "saved s1 = Some t0"
    using assms(2,4) no_tx_calm [OF assms(1)]
    by (auto simp: record_migration_def insert_migration_def split: if_splits)
  then show ?thesis using roll_back_undone [OF assms(1)] by blast
next
  case True
  then show ?thesis
    using assms(2-4) no_tx_calm [OF assms(1)]
    by (auto simp: record_migration_def insert_migration_def undone_def durable_def migrated_def
        select_migration_def split: if_splits)
qed

text \<open>The loop, from inside the transaction.\<close>

lemma migrate_entries_outcome:
  assumes "no_tx_fault E"
  shows "saved s = Some t0 \<Longrightarrow> wf (tabs s) \<Longrightarrow> room (length buf - pos) (tabs s) \<Longrightarrow>
    run_state (migrate_entries E buf bid n pos k) s = (r, s') \<Longrightarrow>
    (\<exists>es. r = Some MIGRATE_OK \<and> unpack n (drop pos buf) = Some es \<and>
       migrated bid k (map file_entry_of es) (tabs s) s') \<or>
    (r \<noteq> Some MIGRATE_OK \<and> r \<noteq> Some MIGRATE_ERR_ALREADY_APPLIED \<and> undone t0 s')"
proof (induction n arbitrary: s pos k)
  case 0
  then show ?case using record_migration_outcome [OF assms, of s t0 bid k r s'] by auto
next
  case (Suc n)
  have calm: "calm E s" for s using assms by (rule no_tx_calm)
  show ?case
  proof (cases "read_entry buf pos")
    case None
    then show ?thesis using Suc.prems roll_back_undone [OF assms Suc.prems(1)] by auto
  next
    case (Some e)
    obtain nlen name data dlen pos' where e: "read_entry buf pos = Some (nlen, name, data, dlen, pos')"
      using Some by (cases e) auto
    let ?p = "c_string (map char_of_byte name)" and ?s = "bump s"
    show ?thesis
    proof (cases "fault_at E (tick s) = Fine \<and> unat nlen < unat (nlen + 1)")
      case False
      then have "r = None \<and> s' = ?s \<or> run_state (roll_back E MIGRATE_ERR_DB) ?s = (r, s')"
        using Suc.prems(4) e by (auto split: if_splits)
      then show ?thesis
        using roll_back_undone [OF assms, of ?s t0 MIGRATE_ERR_DB r s'] Suc.prems(1)
        by (auto simp: undone_def durable_def)
    next
      case True
      obtain r1 s1 where w: "run_state (overlay_fs_write E Main_db (Some ?p) (Some data) (unat dlen)) ?s = (r1, s1)"
        by (rule prod.exhaust)
      have room1: "room 1 (tabs s)"
        using read_entry_lengths [OF e] by (intro roomD [OF Suc.prems(3)]) arith
      have "unat dlen \<le> length buf - pos" using read_entry_lengths [OF e] by arith
      then have "unat dlen < 2 ^ 31" using Suc.prems(3) by (simp add: room_def)
      then have "bound_bytes E data (unat dlen) = data" using read_entry_lengths [OF e] by simp
      then have out: "appended ?p data (unat dlen) ?s r1 s1"
        using overlay_write_outcome [OF _ calm _ w] Suc.prems(2) room1 by simp
      then have sv: "saved s1 = Some t0" using Suc.prems(1) by (simp add: appended_def frame_def)
      have rest: "run_state (if r1 < 0 then roll_back E MIGRATE_ERR_DB
          else migrate_entries E buf bid n pos' (k + 1)) s1 = (r, s')"
        using Suc.prems(4) e True w by (simp add: not_le)
      show ?thesis
      proof (cases "r1 < 0")
        case True
        then show ?thesis using roll_back_undone [OF assms sv] rest by auto
      next
        case False
        then have hist: "history (tabs s1) = (history (tabs s))(?p := history (tabs s) ?p @ [data])"
          using out by (auto simp: appended_def)
        have fr: "frame ?s s1" and wf1: "wf (tabs s1)" using out by (simp_all add: appended_def)
        have "Suc (length buf - pos') \<le> length buf - pos" using read_entry_lengths [OF e] by arith
        then have "room (length buf - pos') (tabs s1)"
          using frame_room [OF _ fr] roomD [OF Suc.prems(3)] by simp
        from Suc.IH [OF sv wf1 this] rest False consider
          (fine) es where "r = Some MIGRATE_OK" "unpack n (drop pos' buf) = Some es"
            "migrated bid (k + 1) (map file_entry_of es) (tabs s1) s'"
          | (failed) "r \<noteq> Some MIGRATE_OK" "r \<noteq> Some MIGRATE_ERR_ALREADY_APPLIED" "undone t0 s'"
          by auto
        then show ?thesis
        proof cases
          case fine
          have "unpack (Suc n) (drop pos buf) = Some ((name, data) # es)"
            unfolding read_entry_unpack e by (simp add: fine)
          moreover have "migrated bid k (map file_entry_of ((name, data) # es)) (tabs s) s'"
            using fine(3) fr hist 
            by (simp add: migrated_def file_entry_of_def frame_def select_migration_def add.assoc)
          ultimately show ?thesis using fine(1) by blast
        qed simp
      qed
    qed
  qed
qed

section \<open>The whole function\<close>

text \<open>\<open>migrate_bundle\<close> on a decompressed bundle, and the ways the function returns before it.\<close>

lemma migrate_bundle_outcome:
  assumes E: "no_tx_fault E" and s: "saved s = None" "wf (tabs s)" "room (length buf) (tabs s)"
    and run: "run_state (migrate_bundle E buf bid) s = (r, s')"
  shows "(\<exists>es. r = Some MIGRATE_OK \<and> unpack_bundle buf = Some es \<and>
       migrated bid 0 (map file_entry_of es) (tabs s) s') \<or>
    (r \<noteq> Some MIGRATE_OK \<and> r \<noteq> Some MIGRATE_ERR_ALREADY_APPLIED \<and> undone (tabs s) s')"
proof (cases "4 > length buf \<or> fault_at E (tick s) \<noteq> Fine")
  case True
  then have "r \<noteq> Some MIGRATE_OK \<and> r \<noteq> Some MIGRATE_ERR_ALREADY_APPLIED \<and> (s' = s \<or> s' = bump s)"
    using run no_tx_calm [OF E, of s] by (auto simp: migrate_bundle_def split: if_splits)
  then show ?thesis using s(1) by (auto simp: undone_def durable_def)
next
  case False
  let ?s = "(bump s)\<lparr>saved := Some (tabs s)\<rparr>"
  have "run_state (migrate_entries E buf bid (unat (read_u32 buf)) 4 0) ?s = (r, s')"
    using run False s(1) no_tx_calm [OF E, of s] by (simp add: migrate_bundle_def)
  then show ?thesis
    using migrate_entries_outcome [OF E, of ?s "tabs s"] s(2) roomD [OF s(3), of "length buf - 4"] False
    by (auto simp: unpack_bundle_def)
qed

lemma migrate_assets_cases:
  assumes "calm E s"
    and "run_state (overlay_fs_migrate_assets E unz ctx db blob bundle_len) s = (r, s')"
  shows "(r \<noteq> Some MIGRATE_OK \<and> tabs s' = tabs s \<and> saved s' = saved s \<and>
      (r = Some MIGRATE_ERR_ALREADY_APPLIED \<longrightarrow>
         (\<exists>b. blob = Some b \<and> select_migration (compute_bundle_id ctx (take bundle_len b)) (tabs s)))) \<or>
    (\<exists>b buf s1. db = Main_db \<and> blob = Some b \<and>
       unz (unat (word_of_nat bundle_len * 10 :: u64)) (take bundle_len b) = Some buf \<and>
       tabs s1 = tabs s \<and> saved s1 = saved s \<and>
       run_state (migrate_bundle E buf (compute_bundle_id ctx (take bundle_len b))) s1 = (r, s'))"
proof (cases "db = Main_db \<and> blob \<noteq> None \<and> bundle_len \<noteq> 0")
  case False
  then show ?thesis
    using assms(2) by (cases db; cases blob) (auto simp: overlay_fs_migrate_assets_def)
next
  case True
  then obtain b where "db = Main_db" "blob = Some b" "bundle_len \<noteq> 0" by auto
  then show ?thesis
    using assms by (auto simp: overlay_fs_migrate_assets_def Let_def split: if_splits option.splits)
qed

lemma migrate_entries_not_applied:
  "fst (run_state (migrate_entries E buf bid n pos k) s) \<noteq> Some MIGRATE_ERR_ALREADY_APPLIED"
proof (induction n arbitrary: s pos k)
  case 0
  show ?case by (simp add: record_migration_def roll_back_def case_prod_unfold)
next
  case (Suc n)
  show ?case by (auto simp: roll_back_def case_prod_unfold Suc split: option.splits)
qed

lemma migrate_bundle_not_applied:
  "fst (run_state (migrate_bundle E buf bid) s) \<noteq> Some MIGRATE_ERR_ALREADY_APPLIED"
  by (simp add: migrate_bundle_def case_prod_unfold migrate_entries_not_applied)

text \<open>zlib: the output of \<open>uncompress\<close> fits the buffer it was given.\<close>

definition bounded_uncompress :: "(nat \<Rightarrow> bytes \<Rightarrow> bytes option) \<Rightarrow> bool" where
  "bounded_uncompress unz \<longleftrightarrow> (\<forall>n z d. unz n z = Some d \<longrightarrow> length d \<le> n)"

lemma migrate_buffer: "10 * n < 2 ^ 64 \<Longrightarrow> unat (word_of_nat n * 10 :: u64) = 10 * n"
  by (simp add: unat_word_ariths unat_of_nat)

lemma migrate_assets_outcome:
  assumes "no_tx_fault E" "saved s = None" "wf (tabs s)" "room (10 * bundle_len) (tabs s)"
    and "10 * bundle_len < 2 ^ 64" "bounded_uncompress unz"
    and "run_state (overlay_fs_migrate_assets E unz ctx db blob bundle_len) s = (r, s')"
  shows "(r = Some MIGRATE_OK \<and> (\<exists>b buf es. blob = Some b \<and>
       unz (10 * bundle_len) (take bundle_len b) = Some buf \<and> unpack_bundle buf = Some es \<and>
       migrated (compute_bundle_id ctx (take bundle_len b)) 0 (map file_entry_of es) (tabs s) s')) \<or>
    (r \<noteq> Some MIGRATE_OK \<and> undone (tabs s) s' \<and>
      (r = Some MIGRATE_ERR_ALREADY_APPLIED \<longrightarrow> tabs s' = tabs s \<and> saved s' = None \<and>
         (\<exists>b. blob = Some b \<and> select_migration (compute_bundle_id ctx (take bundle_len b)) (tabs s))))"
  using migrate_assets_cases [OF no_tx_calm [OF assms(1)] assms(7)]
proof (elim disjE exE conjE)
  fix b buf s1
  assume "unz (unat (word_of_nat bundle_len * 10 :: u64)) (take bundle_len b) = Some buf"
  then have buf: "unz (10 * bundle_len) (take bundle_len b) = Some buf" "length buf \<le> 10 * bundle_len"
    using assms(6) migrate_buffer [OF assms(5)] by (simp_all add: bounded_uncompress_def)
  assume s1: "tabs s1 = tabs s" "saved s1 = saved s" and b: "blob = Some b"
    and run: "run_state (migrate_bundle E buf (compute_bundle_id ctx (take bundle_len b))) s1 = (r, s')"
  have "room (length buf) (tabs s)" using assms(4) buf(2) by (rule roomD)
  then show ?thesis
    using migrate_bundle_outcome [OF assms(1) _ _ _ run] s1 assms(2,3) buf(1) b by auto
qed (use assms(2) in \<open>simp add: undone_def durable_def\<close>)

text \<open>The same code under automatic rollbacks: a run that loses the transaction cannot commit it.\<close>

lemma record_migration_lost:
  "saved s = None \<Longrightarrow> fst (run_state (record_migration E bid k) s) \<noteq> Some MIGRATE_OK"
  using calm_no_tx [of s E]
  by (auto simp: record_migration_def roll_back_def split: if_splits option.splits prod.splits)

lemma migrate_entries_lost:
  "saved s = None \<Longrightarrow> fst (run_state (migrate_entries E buf bid n pos k) s) \<noteq> Some MIGRATE_OK"
proof (induction n arbitrary: s pos k)
  case 0
  then show ?case by (simp add: record_migration_lost)
next
  case (Suc n)
  have keep: "saved (snd (run_state (overlay_fs_write E db path data sz) s)) = None" if "saved s = None" for db path data sz s
    using steadyD(1) [OF steady_overlay_fs_write surjective_pairing] that by blast
  show ?case using Suc.prems
    by (auto simp: roll_back_def keep intro!: Suc.IH split: option.splits prod.splits)
       (metis Suc.IH Suc.prems bump_simps(2) fst_conv snd_conv keep)
qed

lemma steady_record_migration [steady_intros]: "steady_in E (\<lambda>E. record_migration E bid k)"
  unfolding record_migration_def roll_back_def statement_faults_simps by (intro steady_intros)

lemma steady_migrate_entries [steady_intros]: "steady_in E (\<lambda>E. migrate_entries E buf bid n pos k)"
proof (induction n arbitrary: pos k)
  case 0
  show ?case by (simp add: steady_record_migration)
next
  case (Suc n)
  show ?case unfolding migrate_entries.simps roll_back_def by (intro steady_intros Suc)
qed

text \<open>So a run that returns OK is one without a fault, and goes the same way in \<open>statement_faults E\<close>.\<close>

lemma record_migration_OK:
  assumes "run_state (record_migration E bid k) s = (Some MIGRATE_OK, s')"
  shows "run_state (record_migration (statement_faults E) bid k) s = (Some MIGRATE_OK, s')"
proof -
  obtain ok s1 where "run_state (sq_prepare E [''migrations'']) s = (ok, s1)" by (rule prod.exhaust)
  then have f0: "fault_at E (tick s) = Fine"
    using assms failed_steps(1) [of E s "[''migrations'']"]
    by (auto simp: record_migration_def roll_back_def split: if_splits prod.splits)
  note s0 = fine_steps [OF f0]
  let ?upd = "insert_migration bid (clock E (tick (bump s))) k"
  have f1: "fault_at E (tick (bump s)) = Fine"
  proof (rule ccontr)
    assume "fault_at E (tick (bump s)) \<noteq> Fine"
    then have "\<not> fst (run_state (sq_change E ?upd (\<lambda>_ r. r)) (bump s))" by (rule failed_steps)
    then show False
      using assms by (auto simp: record_migration_def roll_back_def s0 split: if_splits prod.splits)
  qed
  note s1 = fine_steps [OF f1]
  obtain t where t: "?upd (tabs s) = Some t"
    using assms by (cases "?upd (tabs s)")
      (auto simp: record_migration_def roll_back_def s0 s1 split: if_splits prod.splits)
  let ?s = "(bump (bump s))\<lparr>tabs := t, last_rowid := last_rowid s\<rparr>"
  have com: "run_state (do { c \<leftarrow> sq_commit E; ret (Some (if c then MIGRATE_OK else MIGRATE_ERR_DB)) }) ?s =
      (Some MIGRATE_OK, s')"
    using assms t by (auto simp: record_migration_def roll_back_def s0 s1 split: if_splits prod.splits)
  have f2: "fault_at E (tick ?s) = Fine"
    using com failed_steps(4) [of E ?s] by (cases "run_state (sq_commit E) ?s") (auto split: if_splits)
  have av: "available [''migrations''] (tabs s)"
    using assms by (auto simp: record_migration_def roll_back_def s0 split: if_splits prod.splits)
  have "run_state (sq_commit (statement_faults E)) ?s = run_state (sq_commit E) ?s"
    using fine_steps(5) [OF f2] f2 by simp
  then show ?thesis
    using com t f0 f1 av by (simp add: record_migration_def split: prod.splits)
qed

lemma migrate_entries_OK:
  "run_state (migrate_entries E buf bid n pos k) s = (Some MIGRATE_OK, s') \<Longrightarrow>
   run_state (migrate_entries (statement_faults E) buf bid n pos k) s = (Some MIGRATE_OK, s')"
proof (induction n arbitrary: s pos k)
  case 0
  then show ?case by (simp add: record_migration_OK)
next
  case (Suc n)
  obtain nlen name data dlen pos' where e: "read_entry buf pos = Some (nlen, name, data, dlen, pos')"
    using Suc.prems by (auto simp: roll_back_def split: option.splits prod.splits)
  let ?p = "Some (c_string (map char_of_byte name))"
  have ok: "fault_at E (tick s) = Fine" "unat nlen < unat (nlen + 1)"
    using Suc.prems e by (auto simp: roll_back_def split: if_splits prod.splits)
  obtain r1 s1 where w: "run_state (overlay_fs_write E Main_db ?p (Some data) (unat dlen)) (bump s) = (r1, s1)"
    by (rule prod.exhaust)
  have rest: "\<not> r1 < 0" "run_state (migrate_entries E buf bid n pos' (k + 1)) s1 = (Some MIGRATE_OK, s')"
    using Suc.prems e ok w by (auto simp: roll_back_def not_le split: if_splits prod.splits)
  then have "\<not> lost (bump s) s1"
    using migrate_entries_lost [of s1 E buf bid n pos' "k + 1"] by (auto simp: lost_def)
  then have "run_state (overlay_fs_write (statement_faults E) Main_db ?p (Some data) (unat dlen)) (bump s) = (r1, s1)"
    using steadyD(3) [OF steady_overlay_fs_write w] by blast
  then show ?case using e ok rest Suc.IH by (simp add: not_le)
qed

lemma migrate_bundle_OK:
  assumes "run_state (migrate_bundle E buf bid) s = (Some MIGRATE_OK, s')" "saved s = None"
  shows "run_state (migrate_bundle (statement_faults E) buf bid) s = (Some MIGRATE_OK, s')"
  using assms calm_no_tx [OF assms(2), of E]
  by (auto simp: migrate_bundle_def Let_def migrate_entries_OK split: if_splits)

lemma migrate_assets_faults_OK:
  assumes "run_state (overlay_fs_migrate_assets E unz ctx db blob n) s = (Some MIGRATE_OK, s')" "saved s = None"
  shows "run_state (overlay_fs_migrate_assets (statement_faults E) unz ctx db blob n) s = (Some MIGRATE_OK, s')"
proof (cases "db = Main_db \<and> blob \<noteq> None \<and> n \<noteq> 0")
  case False
  then show ?thesis using assms(1) by (cases db; cases blob) (auto simp: overlay_fs_migrate_assets_def)
next
  case True
  then obtain b where "db = Main_db" "blob = Some b" "n \<noteq> 0" by auto
  then show ?thesis
    using assms calm_no_tx [OF assms(2), of E]
    by (auto simp: overlay_fs_migrate_assets_def Let_def migrate_bundle_OK split: if_splits option.splits)
qed

lemma statement_faults_no_tx [simp]: "no_tx_fault (statement_faults E)"
  by (simp add: no_tx_fault_def)

text \<open>
  C1. A migration is atomic. Whatever fails in it, statements, allocations or the whole
  transaction by an automatic rollback of SQLite, it returns OK only if the files of the
  decoded bundle are appended to the histories, in order, the bundle is recorded once with its
  number of entries, nothing else is new and the transaction is committed; so never for a
  bundle that is already recorded. If it returns anything else, what survives the connection is
  what was there before, whatever statement or allocation failed, provided SQLite did not roll
  the transaction back by itself.
\<close>

theorem migration_atomic:
  assumes "saved s = None" "wf (tabs s)" "room (10 * bundle_len) (tabs s)"
    and "10 * bundle_len < 2 ^ 64" "bounded_uncompress unz"
    and "run_state (overlay_fs_migrate_assets E unz ctx db blob bundle_len) s = (r, s')"
  shows "(r = Some MIGRATE_OK \<and> (\<exists>b buf es g. blob = Some b \<and>
       unz (10 * bundle_len) (take bundle_len b) = Some buf \<and> unpack_bundle buf = Some es \<and>
       (\<forall>p. history (tabs s') p = history (tabs s) p @ contents_for p (map file_entry_of es)) \<and>
       \<not> select_migration (compute_bundle_id ctx (take bundle_len b)) (tabs s) \<and>
       migrations (tabs s') = migrations (tabs s) @ [g] \<and>
       g_bundle_id g = compute_bundle_id ctx (take bundle_len b) \<and> g_entries g = int (length es) \<and>
       wf (tabs s') \<and> saved s' = None)) \<or>
    (r \<noteq> Some MIGRATE_OK \<and> (no_tx_fault E \<longrightarrow> durable s' = tabs s))"
proof (cases "r = Some MIGRATE_OK")
  case True
  then have run: "run_state (overlay_fs_migrate_assets (statement_faults E) unz ctx db blob bundle_len) s = (r, s')"
    using migrate_assets_faults_OK assms(1,6) by blast
  obtain b buf es where b: "blob = Some b" "unz (10 * bundle_len) (take bundle_len b) = Some buf"
      "unpack_bundle buf = Some es"
      "migrated (compute_bundle_id ctx (take bundle_len b)) 0 (map file_entry_of es) (tabs s) s'"
    using migrate_assets_outcome [OF statement_faults_no_tx assms(1-5) run] True by auto
  then show ?thesis using True by (auto simp: migrated_def)
next
  case False
  then show ?thesis using migrate_assets_outcome [OF _ assms] by (auto simp: undone_def)
qed

definition stored :: "nat \<Rightarrow> bytes \<Rightarrow> bytes option" where
  "stored n z = (if length z \<le> n then Some z else None)"

definition some_ctx :: sha256_ctx where
  "some_ctx = \<lparr>ctx_data = replicate 64 0, ctx_datalen = 0, ctx_bitlen = 0, ctx_state = []\<rparr>"

definition one_file_bundle :: bytes where
  "one_file_bundle = le32 1 @ le32 1 @ map byte_of_char ''a'' @ le32 2 @ [1, 2]"

lemma one_file_bundle_simps [simp]:
  "length one_file_bundle = 15" "unpack_bundle one_file_bundle = Some [(map byte_of_char ''a'', [1, 2])]"
proof -
  have "unpack (Suc 0) (le32 1 @ map byte_of_char ''a'' @ le32 2 @ [1, 2]) = Some [(map byte_of_char ''a'', [1, 2])]"
    using take_field_pack [of 1 "map byte_of_char ''a''" "le32 2 @ [1, 2]"] take_field_pack [of 2 "[1, 2]" "[]"] by simp
  then show "unpack_bundle one_file_bundle = Some [(map byte_of_char ''a'', [1, 2])]"
    unfolding one_file_bundle_def unpack_bundle_def by (simp del: unpack.simps)
qed (simp add: one_file_bundle_def)

lemma stored_bounded [simp]: "bounded_uncompress stored"
  by (simp add: bounded_uncompress_def stored_def)

lemma quiet_no_tx [simp]: "no_tx_fault quiet_env"
  by (simp add: no_tx_fault_def)

theorem migration_atomic_witness:
  "\<exists>r s'. run_state (overlay_fs_migrate_assets quiet_env stored some_ctx Main_db (Some one_file_bundle) 15)
      fresh_conn = (r, s') \<and>
    (r = Some MIGRATE_OK \<and> history (tabs s') ''a'' = [[1, 2]] \<or> r \<noteq> Some MIGRATE_OK \<and> durable s' = schema_tables)"
proof -
  obtain r s' where run: "run_state (overlay_fs_migrate_assets quiet_env stored some_ctx Main_db
      (Some one_file_bundle) 15) fresh_conn = (r, s')" by (rule prod.exhaust)
  have "map file_entry_of [(map byte_of_char ''a'', [1, 2])] = [(''a'', [1, 2])]"
    by (simp add: file_entry_of_def nul_free_def)
  then show ?thesis
    using migration_atomic [OF _ _ _ _ stored_bounded run] run
    by (auto simp: stored_def)
qed

section \<open>Nothing outside the buffers\<close>

lemma record_not_None: "fst (run_state (record_migration E bid k) s) \<noteq> None"
  by (simp add: record_migration_def roll_back_def case_prod_unfold)

lemma name_no_wrap: "unat (w :: u32) < 2 ^ 32 - 1 \<Longrightarrow> unat (w + 1) = unat w + 1"
  by (simp add: unat_word_ariths)

lemma migrate_entries_no_overflow:
  "length buf < 2 ^ 32 \<Longrightarrow> fst (run_state (migrate_entries E buf bid n pos k) s) \<noteq> None"
proof (induction n arbitrary: pos k s)
  case 0
  show ?case by (simp add: record_not_None)
next
  case (Suc n)
  show ?case
  proof (cases "read_entry buf pos")
    case None
    then show ?thesis by (simp add: roll_back_def case_prod_unfold)
  next
    case (Some e)
    obtain nlen name data dlen pos' where e: "read_entry buf pos = Some (nlen, name, data, dlen, pos')"
      using Some by (cases e) auto
    have "unat nlen < 2 ^ 32 - 1" using read_entry_lengths [OF e] Suc.prems by simp
    then have "unat (nlen + 1) = unat nlen + 1" by (rule name_no_wrap)
    then show ?thesis
      using Suc by (simp add: e roll_back_def case_prod_unfold)
  qed
qed

lemma migrate_assets_not_None:
  assumes "10 * bundle_len < 2 ^ 32" "bounded_uncompress unz"
  shows "fst (run_state (overlay_fs_migrate_assets E unz ctx db blob bundle_len) s) \<noteq> None"
proof -
  have len: "length buf < 2 ^ 32"
    if "unz (unat (word_of_nat bundle_len * 10 :: u64)) z = Some buf" for z buf
    using that assms migrate_buffer [of bundle_len] by (fastforce simp: bounded_uncompress_def)
  have "fst (run_state (migrate_bundle E buf bid) s) \<noteq> None" if "length buf < 2 ^ 32" for buf bid s
    using that migrate_entries_no_overflow [OF that] by (simp add: migrate_bundle_def case_prod_unfold)
  then show ?thesis
    using len by (auto simp: overlay_fs_migrate_assets_def case_prod_unfold Let_def
        split: sqlite3_ptr.splits option.splits step.splits)
qed

text \<open>
  C13. For every bundle of less than 2^32 / 10 bytes, compressed, the migration never writes
  outside an allocation: the 32-bit \<open>name_len + 1\<close> cannot wrap, whatever the bundle contains,
  in whatever state the database is and whatever calls fail.
\<close>

theorem migration_memory_safe:
  assumes "10 * bundle_len < 2 ^ 32" "bounded_uncompress unz"
  shows "fst (run_state (overlay_fs_migrate_assets E unz ctx db blob bundle_len) s) \<noteq> None"
  using assms by (rule migrate_assets_not_None)

theorem migration_memory_safe_witness:
  "fst (run_state (overlay_fs_migrate_assets quiet_env stored some_ctx Main_db (Some [0xFF, 0xFF]) 2) fresh_conn) \<noteq> None"
  by (rule migration_memory_safe) simp_all

section \<open>A good bundle is installed\<close>

lemma record_migration_healthy:
  assumes "healthy E s" "saved s = Some t0" "\<not> select_migration bid (tabs s)"
  shows "fst (run_state (record_migration E bid k) s) = Some MIGRATE_OK"
  using assms healthyD [OF assms(1)] by (simp add: record_migration_def insert_migration_def)

lemma migrate_entries_healthy:
  "healthy E s \<Longrightarrow> saved s = Some t0 \<Longrightarrow> wf (tabs s) \<Longrightarrow> room (length buf - pos) (tabs s) \<Longrightarrow>
   \<not> select_migration bid (tabs s) \<Longrightarrow> unpack n (drop pos buf) = Some es \<Longrightarrow>
   length buf \<le> max_len E \<Longrightarrow> length buf < 2 ^ 31 \<Longrightarrow>
   fst (run_state (migrate_entries E buf bid n pos k) s) = Some MIGRATE_OK"
proof (induction n arbitrary: s pos k es)
  case 0
  then show ?case by (simp add: record_migration_healthy)
next
  case (Suc n)
  note unp = Suc.prems(6) [unfolded read_entry_unpack]
  obtain nlen name data dlen pos' es' where e: "read_entry buf pos = Some (nlen, name, data, dlen, pos')"
    and es': "unpack n (drop pos' buf) = Some es'"
    using unp by (auto split: option.splits prod.splits)
  note len = read_entry_lengths [OF e]
  let ?p = "c_string (map char_of_byte name)" and ?s = "bump s"
  have "Suc (length buf - pos') \<le> length buf - pos" using len by arith
  then have inv: "store_inv E (Suc (length buf - pos')) ?s"
    using Suc.prems(3) roomD [OF Suc.prems(4)] healthyD(2) [OF Suc.prems(1)] by (simp add: store_inv_def)
  have small: "length data \<le> max_len E" "length data < 2 ^ 31"
    using len Suc.prems(7,8) by simp_all
  obtain s1 where s1: "put_file E ?p data ?s = (0, s1)" "store_inv E (length buf - pos') s1" "healthy E s1"
    using put_healthy [OF inv _ small] Suc.prems(1) by auto
  have fr: "frame ?s s1" using store_inv_put [OF inv s1(1)] by (simp add: appended_def)
  have "unat nlen < 2 ^ 32 - 1" using len Suc.prems(8) by simp
  then have wrap: "unat (nlen + 1) = unat nlen + 1" by (rule name_no_wrap)
  have "fst (run_state (migrate_entries E buf bid n pos' (k + 1)) s1) = Some MIGRATE_OK"
    using Suc.prems(2,5,7,8) s1(2,3) fr es'
    by (intro Suc.IH) (simp_all add: store_inv_def frame_def select_migration_def)
  then show ?case
    using e wrap s1(1) len healthyD(1) [OF Suc.prems(1)] by simp
qed

lemma migrate_assets_healthy:
  assumes "healthy E s" "saved s = None" "wf (tabs s)" "room (10 * length z) (tabs s)"
    and "z \<noteq> []" "10 * length z < 2 ^ 31" "10 * length z \<le> max_len E" "bounded_uncompress unz"
    and "unz (10 * length z) z = Some buf" "unpack_bundle buf = Some es"
    and "\<not> select_migration (compute_bundle_id ctx z) (tabs s)"
  shows "fst (run_state (overlay_fs_migrate_assets E unz ctx Main_db (Some z) (length z)) s) = Some MIGRATE_OK"
proof -
  have buf: "length buf \<le> 10 * length z" "\<not> length buf < 4" "unpack (unat (read_u32 buf)) (drop 4 buf) = Some es"
    using assms(8,9,10) by (auto simp: bounded_uncompress_def unpack_bundle_def split: if_splits)
  have conv: "unat (word_of_nat (length z) * 10 :: u64) = 10 * length z"
    using assms(6) by (intro migrate_buffer) simp
  let ?s = "bump (bump (bump s))"
  have "fst (run_state (migrate_entries E buf (compute_bundle_id ctx z) (unat (read_u32 buf)) 4 0)
      ((bump ?s)\<lparr>saved := Some (tabs s)\<rparr>)) = Some MIGRATE_OK"
    using assms(1,3,4,6,7,11) buf roomD [OF assms(4)]
    by (intro migrate_entries_healthy) (auto simp: healthy_def)
  then have "fst (run_state (migrate_bundle E buf (compute_bundle_id ctx z)) ?s) = Some MIGRATE_OK"
    using buf(2) assms(2) healthyD(1,2) [OF assms(1)] by (simp add: migrate_bundle_def)
  then show ?thesis
    using assms(5,9,11) conv healthyD [OF assms(1)]
    by (simp add: overlay_fs_migrate_assets_def Let_def)
qed

lemma contents_for_one:
  assumes "e \<in> set xs" "distinct (map e_path xs)"
  shows "contents_for (e_path e) (map (\<lambda>e. (e_path e, e_data e)) xs) = [e_data e]"
  using assms
proof (induction xs)
  case (Cons x xs)
  have "contents_for (e_path x) (map (\<lambda>e. (e_path e, e_data e)) xs) = []"
    using Cons.prems(2) by (auto simp: contents_for_def filter_empty_iff) (metis image_eqI)
  then show ?case using Cons by auto
qed simp

lemma packed_files_installed:
  assumes wf: "\<forall>e \<in> set (entries b). wf_entry e" "count b < 2 ^ 32" "packed_size (entries b) < 2 ^ 64"
    and names: "distinct (map e_path (entries b))"
    and pack: "run_state (bundle_pack PE b) k = (Some (packed, n), k')"
    and z: "unz (10 * length z) z = Some packed" "z \<noteq> []" "bounded_uncompress unz"
    and size: "10 * length z < 2 ^ 31" "10 * length z \<le> max_len E"
    and db: "healthy E s" "saved s = None" "wf (tabs s)" "room (10 * length z) (tabs s)"
    and new: "\<not> select_migration (compute_bundle_id ctx z) (tabs s)"
  shows "\<exists>s'. run_state (overlay_fs_migrate_assets E unz ctx Main_db (Some z) (length z)) s = (Some MIGRATE_OK, s') \<and>
    wf (tabs s') \<and> healthy E s' \<and>
    (\<forall>e \<in> set (entries b). history (tabs s') (e_path e) = history (tabs s) (e_path e) @ [e_data e])"
proof -
  let ?es = "qsort (entries b)"
  have unp: "unpack_bundle packed = Some (map entry_of ?es)"
    using unpack_pack_bundle [OF wf(1,2) pack] .
  obtain s' where s': "run_state (overlay_fs_migrate_assets E unz ctx Main_db (Some z) (length z)) s =
      (Some MIGRATE_OK, s')"
    using migrate_assets_healthy [OF db z(2) size z(3,1) unp new] by (metis prod.collapse)
  have no_tx: "no_tx_fault E" using db(1) by (simp add: healthy_def no_tx_fault_def)
  have conv: "unat (word_of_nat (length z) * 10 :: u64) = 10 * length z"
    using size(1) by (intro migrate_buffer) simp
  obtain s1 where s1: "tabs s1 = tabs s" "saved s1 = None"
      "run_state (migrate_bundle E packed (compute_bundle_id ctx z)) s1 = (Some MIGRATE_OK, s')"
    using migrate_assets_cases [OF no_tx_calm [OF no_tx] s'] z(1) db(2) conv by auto
  have "length packed \<le> 10 * length z" using z(1,3) by (simp add: bounded_uncompress_def)
  then have "migrated (compute_bundle_id ctx z) 0 (map file_entry_of (map entry_of ?es)) (tabs s) s'"
    using migrate_bundle_outcome [OF no_tx s1(2) _ _ s1(3)] s1(1) db(3) roomD [OF db(4)] unp by auto
  moreover have "map file_entry_of (map entry_of ?es) = map (\<lambda>e. (e_path e, e_data e)) ?es"
    using wf(1) by (simp add: file_entry_of_def entry_of_def wf_entry_def)
  ultimately have "migrated (compute_bundle_id ctx z) 0 (map (\<lambda>e. (e_path e, e_data e)) ?es) (tabs s) s'"
    by (simp only:)
  then have m: "wf (tabs s')" "t_tables (tabs s') = t_tables (tabs s)" "t_views (tabs s') = t_views (tabs s)"
      "\<And>p. history (tabs s') p = history (tabs s) p @ contents_for p (map (\<lambda>e. (e_path e, e_data e)) ?es)"
    by (simp_all add: migrated_def)
  have hist: "history (tabs s') (e_path e) = history (tabs s) (e_path e) @ [e_data e]" if "e \<in> set (entries b)" for e
    using m(4) [of "e_path e"] contents_for_one [of e ?es] that qsort_distinct [OF names] by simp
  have h': "healthy E s'" using db(1) m(2,3) by (simp add: healthy_def has_schema_def)
  show ?thesis using s' hist m(1) h' by blast
qed

text \<open>
  C2. From the packer to the reader: a bundle that \<open>bundle_pack\<close> made of files with different
  names, compressed to at least a tenth of its size and migrated into a database that does not
  have it, is accepted, and afterwards every reader returns for each file exactly its bytes.
\<close>

theorem packed_files_are_served:
  assumes wf: "\<forall>e \<in> set (entries b). wf_entry e" "count b < 2 ^ 32" "packed_size (entries b) < 2 ^ 64"
    and names: "distinct (map e_path (entries b))"
    and pack: "run_state (bundle_pack PE b) k = (Some (packed, n), k')"
    and z: "unz (10 * length z) z = Some packed" "z \<noteq> []" "bounded_uncompress unz"
    and size: "10 * length z < 2 ^ 31" "10 * length z \<le> max_len E"
    and db: "healthy E s" "saved s = None" "wf (tabs s)" "room (10 * length z) (tabs s)"
    and new: "\<not> select_migration (compute_bundle_id ctx z) (tabs s)"
  shows "\<exists>s'. run_state (overlay_fs_migrate_assets E unz ctx Main_db (Some z) (length z)) s = (Some MIGRATE_OK, s') \<and>
    (\<forall>e \<in> set (entries b). history (tabs s') (e_path e) = history (tabs s) (e_path e) @ [e_data e] \<and>
       get_by_id E (e_path e) s' = Some (e_data e) \<and> get_by_view E (e_path e) s' = Some (e_data e) \<and>
       get_by_db E (e_path e) s' = Some (e_data e))"
proof -
  obtain s' where s': "run_state (overlay_fs_migrate_assets E unz ctx Main_db (Some z) (length z)) s = (Some MIGRATE_OK, s')"
    "\<forall>e \<in> set (entries b). history (tabs s') (e_path e) = history (tabs s) (e_path e) @ [e_data e]"
    and h': "wf (tabs s')" "healthy E s'"
    using packed_files_installed [OF assms] by blast
  show ?thesis
    using s' read_by_id_healthy [OF h'] read_by_view_healthy [OF h'] db_read_healthy [OF h']
    by (auto simp: file_of_def)
qed

text \<open>\<open>stored\<close> on a bundle of one file, with a buffer limit the bundle stays under.\<close>

theorem packed_files_are_served_witness:
  "\<exists>z s'. run_state (overlay_fs_migrate_assets quiet_env stored some_ctx Main_db (Some z) (length z)) fresh_conn =
      (Some MIGRATE_OK, s') \<and> get_by_id quiet_env ''a.js'' s' = Some [7, 8]"
proof -
  let ?b = "\<lparr>entries = [sample_entry ''a.js'' [7, 8]], capacity = 1\<rparr>"
  obtain packed n k' where run: "run_state (bundle_pack sample_env ?b) 0 = (Some (packed, n), k')"
    by (simp add: bundle_pack_def pk_malloc_def sample_env_def Let_def)
  have len: "length packed = 18"
    using bundle_pack_Some [OF run] by (simp add: sample_entry_def pack_entry_def name_len_def)
  have ne: "packed \<noteq> []" using len by auto
  have "\<exists>s'. run_state (overlay_fs_migrate_assets quiet_env stored some_ctx Main_db (Some packed) (length packed))
        fresh_conn = (Some MIGRATE_OK, s') \<and>
    (\<forall>e \<in> set (entries ?b). history (tabs s') (e_path e) = history (tabs fresh_conn) (e_path e) @ [e_data e] \<and>
       get_by_id quiet_env (e_path e) s' = Some (e_data e) \<and> get_by_view quiet_env (e_path e) s' = Some (e_data e) \<and>
       get_by_db quiet_env (e_path e) s' = Some (e_data e))"
    by (rule packed_files_are_served [OF _ _ _ _ run])
       (simp_all add: stored_def len ne sample_entry_def wf_entry_def nul_free_def max_file_size_def
          packed_size_def select_migration_def)
  then show ?thesis by (auto simp: sample_entry_def)
qed

section \<open>Where the migration gives up or goes wrong\<close>

text \<open>
  C38. The buffer is ten times the compressed size and there is no second attempt: a valid
  bundle that zlib compressed more than tenfold is always rejected with a decompression
  error, although nothing is wrong with it, and no file of it reaches the database.
\<close>

theorem highly_compressed_bundle_rejected:
  assumes "healthy E s" "saved s = None" "z \<noteq> []" "10 * length z < 2 ^ 64"
    and "\<not> select_migration (compute_bundle_id ctx z) (tabs s)"
    and "\<And>n. unz n z = (if length packed \<le> n then Some packed else None)" "10 * length z < length packed"
    and "run_state (overlay_fs_migrate_assets E unz ctx Main_db (Some z) (length z)) s = (r, s')"
  shows "r = Some MIGRATE_ERR_DECOMPRESS \<and> tabs s' = tabs s"
  using assms(3,5,7,8) migrate_buffer [OF assms(4)] healthyD [OF assms(1)]
  by (auto simp: overlay_fs_migrate_assets_def Let_def assms(6))

theorem highly_compressed_bundle_rejected_witness:
  "fst (run_state (overlay_fs_migrate_assets quiet_env
     (\<lambda>n z. if length (one_file_bundle) \<le> n then Some one_file_bundle else None)
     some_ctx Main_db (Some [1]) 1) fresh_conn) = Some MIGRATE_ERR_DECOMPRESS"
proof -
  let ?unz = "\<lambda>n z. if length (one_file_bundle) \<le> n then Some one_file_bundle else None"
  obtain r s' where run: "run_state (overlay_fs_migrate_assets quiet_env ?unz some_ctx Main_db (Some [1])
      (length [1 :: u8])) fresh_conn = (r, s')" by (rule prod.exhaust)
  show ?thesis
    using highly_compressed_bundle_rejected [OF fresh_healthy _ _ _ _ _ _ run, of one_file_bundle] run
    by (simp add: select_migration_def)
qed

lemma migrate_assets_OK:
  assumes "no_tx_fault E" "bounded_uncompress unz" "10 * bundle_len < 2 ^ 64"
    and "run_state (overlay_fs_migrate_assets E unz ctx Main_db (Some z) bundle_len) s = (Some MIGRATE_OK, s')"
  shows "\<exists>buf s0. length buf \<le> 10 * bundle_len \<and> tabs s0 = tabs s \<and> saved s0 = saved s \<and>
    run_state (migrate_bundle E buf (compute_bundle_id ctx (take bundle_len z))) s0 = (Some MIGRATE_OK, s')"
proof -
  obtain buf s0 where b: "unz (unat (word_of_nat bundle_len * 10 :: u64)) (take bundle_len z) = Some buf"
      "tabs s0 = tabs s" "saved s0 = saved s"
      "run_state (migrate_bundle E buf (compute_bundle_id ctx (take bundle_len z))) s0 = (Some MIGRATE_OK, s')"
    using migrate_assets_cases [OF no_tx_calm [OF assms(1)] assms(4)] by blast
  then have "length buf \<le> 10 * bundle_len"
    using assms(2) migrate_buffer [OF assms(3)] by (simp add: bounded_uncompress_def)
  with b show ?thesis by blast
qed

text \<open>
  C26. A bundle is installed once: after a migration that returned OK, the next start finds it
  applied and changes nothing, whatever the SHA-256 context held on the stack.
\<close>

theorem migration_idempotent:
  assumes "no_tx_fault E" "saved s = None" "wf (tabs s)" "room (10 * bundle_len) (tabs s)"
    and "10 * bundle_len < 2 ^ 64" "bounded_uncompress unz"
    and "run_state (overlay_fs_migrate_assets E unz ctx Main_db (Some z) bundle_len) s = (Some MIGRATE_OK, s1)"
    and "healthy E' s1" "length (ctx_data ctx) = 64" "length (ctx_data ctx') = 64"
    and "run_state (overlay_fs_migrate_assets E' unz ctx' Main_db (Some z) bundle_len) s1 = (r, s2)"
  shows "r = Some MIGRATE_ERR_ALREADY_APPLIED \<and> tabs s2 = tabs s1 \<and> saved s2 = None"
proof -
  have id: "compute_bundle_id ctx' (take bundle_len z) = compute_bundle_id ctx (take bundle_len z)"
    using sha256_digest_context [OF assms(10,9)] by (simp add: compute_bundle_id_def)
  have ne: "bundle_len \<noteq> 0" using assms(7) by (cases "bundle_len = 0") (simp_all add: overlay_fs_migrate_assets_def)
  obtain buf s0 where s0: "tabs s0 = tabs s" "saved s0 = None" "length buf \<le> 10 * bundle_len"
      "run_state (migrate_bundle E buf (compute_bundle_id ctx (take bundle_len z))) s0 = (Some MIGRATE_OK, s1)"
    using migrate_assets_OK [OF assms(1,6,5,7)] assms(2) by metis
  have "select_migration (compute_bundle_id ctx (take bundle_len z)) (tabs s1) \<and> saved s1 = None"
    using migrate_bundle_outcome [OF assms(1) s0(2) _ _ s0(4)] s0(1,3) assms(3) roomD [OF assms(4)]
    by (auto simp: migrated_def select_migration_def)
  then show ?thesis
    using assms(11) ne id healthyD [OF assms(8)] by (auto simp: overlay_fs_migrate_assets_def Let_def)
qed

theorem migration_idempotent_witness:
  "\<exists>s1. run_state (overlay_fs_migrate_assets quiet_env stored some_ctx Main_db (Some one_file_bundle) 15) fresh_conn =
      (Some MIGRATE_OK, s1) \<and>
    fst (run_state (overlay_fs_migrate_assets quiet_env stored some_ctx Main_db (Some one_file_bundle) 15) s1) =
      Some MIGRATE_ERR_ALREADY_APPLIED"
proof -
  have "fst (run_state (overlay_fs_migrate_assets quiet_env stored some_ctx Main_db (Some one_file_bundle)
      (length one_file_bundle)) fresh_conn) = Some MIGRATE_OK"
    by (rule migrate_assets_healthy [where buf = one_file_bundle])
       (auto simp: stored_def select_migration_def one_file_bundle_def [symmetric] simp flip: length_0_conv)
  then obtain s1 where s1: "run_state (overlay_fs_migrate_assets quiet_env stored some_ctx Main_db
      (Some one_file_bundle) 15) fresh_conn = (Some MIGRATE_OK, s1)" by (metis one_file_bundle_simps(1) prod.collapse)
  obtain buf s0 where s0: "tabs s0 = schema_tables" "saved s0 = None" "length buf \<le> 150"
      "run_state (migrate_bundle quiet_env buf (compute_bundle_id some_ctx (take 15 one_file_bundle))) s0 =
        (Some MIGRATE_OK, s1)"
    using migrate_assets_OK [OF quiet_no_tx stored_bounded _ s1] by fastforce
  have "t_tables (tabs s1) = t_tables schema_tables \<and> t_views (tabs s1) = t_views schema_tables"
    using migrate_bundle_outcome [OF quiet_no_tx s0(2) _ _ s0(4)] s0(1,3) by (auto simp: migrated_def)
  then have "healthy quiet_env s1"
    using has_schema_tables by (simp add: healthy_def has_schema_def)
  then have "fst (run_state (overlay_fs_migrate_assets quiet_env stored some_ctx Main_db
      (Some one_file_bundle) 15) s1) = Some MIGRATE_ERR_ALREADY_APPLIED"
    using migration_idempotent [OF quiet_no_tx _ _ _ _ stored_bounded s1 _ _ _ prod.collapse [symmetric], of quiet_env some_ctx]
    by (simp add: some_ctx_def)
  with s1 show ?thesis by blast
qed

definition two_file_bundle :: bytes where
  "two_file_bundle = le32 2 @ le32 1 @ map byte_of_char ''a'' @ le32 1 @ [1] @
     le32 1 @ map byte_of_char ''b'' @ le32 1 @ [2]"

definition rollback_env :: env where
  "rollback_env = quiet_env\<lparr>fault_at := \<lambda>n. if n = 13 then Tx_Fault else Fine\<rparr>"

end
