(* ===== verification/Rollback_Loss.thy ===== *)
theory Rollback_Loss
  imports Migrate_Props
begin

text \<open>
  What the migration of hbf/db/overlay_fs.c does when SQLite rolls its transaction back by
  itself, as it does on a full disk, an I/O error or a lack of memory, and the code does not
  notice: under the lookup of an entry's path.
\<close>

section \<open>One write whose calls all work\<close>

definition all_fine :: "env \<Rightarrow> env" where
  "all_fine E = E\<lparr>fault_at := \<lambda>_. Fine\<rparr>"

lemma all_fine_simps [simp]:
  "fault_at (all_fine E) n = Fine" "clock (all_fine E) = clock E" "max_len (all_fine E) = max_len E"
  "bind_blob (all_fine E) = bind_blob E" "calm (all_fine E) s"
  by (auto simp: all_fine_def bind_blob_def calm_def Let_def fun_eq_iff)

lemma all_fine_healthy: "has_schema (tabs s) \<Longrightarrow> healthy (all_fine E) s"
  by (simp add: healthy_def)

lemma six_calls:
  assumes "\<And>i. i < 6 \<Longrightarrow> fault_at E (tick s + i) = Fine"
  shows "fault_at E (tick s) = Fine" "fault_at E (Suc (tick s)) = Fine"
    "fault_at E (Suc (Suc (tick s))) = Fine" "fault_at E (Suc (Suc (Suc (tick s)))) = Fine"
    "fault_at E (Suc (Suc (Suc (Suc (tick s))))) = Fine"
    "fault_at E (Suc (Suc (Suc (Suc (Suc (tick s)))))) = Fine"
  using assms [of 0] assms [of 1] assms [of 2] assms [of 3] assms [of 4] assms [of 5]
  by (simp_all add: eval_nat_numeral)

lemma insert_ids_tables:
  "insert_file_id p t = Some u \<Longrightarrow> t_tables u = t_tables t \<and> t_views u = t_views t"
  by (auto simp: insert_file_id_Some)

lemma schema_available:
  assumes "has_schema t"
  shows "available [''file_ids''] t" "available [''file_versions''] t" "available [''migrations''] t"
  using assms by (auto simp: available_def has_schema_def)

lemma available_same:
  "t_tables u = t_tables t \<and> t_views u = t_views t \<Longrightarrow> available ns u = available ns t"
  by (simp add: available_def)

lemma put_same:
  assumes f: "\<And>i. i < 6 \<Longrightarrow> fault_at E (tick s + i) = Fine" and sch: "has_schema (tabs s)"
  shows "put_file E p d s = put_file (all_fine E) p d s"
    and "put_file (all_fine E) p d s = (0, s') \<Longrightarrow> tick s' = tick s + 6"
proof -
  note av = schema_available [OF sch] available_same [OF insert_ids_tables]
  note defs = overlay_fs_write_def write_at_def write_new_path_def write_known_path_def insert_new_version_def Let_def
  show "put_file E p d s = put_file (all_fine E) p d s"
    by (simp add: defs six_calls [OF f] fine_steps av split: option.splits)
  show "tick s' = tick s + 6" if "put_file (all_fine E) p d s = (0, s')"
    using that by (auto simp: defs fine_steps av split: option.splits if_splits)
qed

lemma put_six:
  assumes "\<And>i. i < 6 \<Longrightarrow> fault_at E (tick s + i) = Fine" and "has_schema (tabs s)"
    and "wf (tabs s)" "room 1 (tabs s)" "length d \<le> max_len E" "length d < 2 ^ 31"
  shows "\<exists>s'. put_file E p d s = (0, s') \<and> tick s' = tick s + 6 \<and> appended p d (length d) s 0 s'"
proof -
  have inv: "store_inv (all_fine E) (Suc 0) s" using assms(3,4) by (simp add: store_inv_def)
  obtain s' where s': "put_file (all_fine E) p d s = (0, s')"
    using put_healthy [OF inv all_fine_healthy [OF assms(2)], of d p] assms(5,6) by auto
  then show ?thesis
    using store_inv_put [OF inv s'] put_same [OF assms(1,2)] assms(6) by simp
qed

section \<open>The write that loses the transaction\<close>

lemma put_rolled_back:
  assumes f: "fault_at E (tick s) = Fine" "fault_at E (tick s + 1) = Tx_Fault"
      "\<And>i. 1 < i \<Longrightarrow> i < 6 \<Longrightarrow> fault_at E (tick s + i) = Fine"
    and s: "saved s = Some t0" "has_schema (tabs s)"
    and t0: "wf t0" "has_schema t0" "room 1 t0" "p \<notin> snd ` set (file_ids t0)"
    and d: "length d \<le> max_len E" "length d < 2 ^ 31"
  shows "\<exists>s'. put_file E p d s = (0, s') \<and> tick s' = tick s + 6 \<and>
    appended p d (length d) (s\<lparr>tabs := t0, saved := None\<rparr>) 0 s'"
proof -
  let ?t = "s\<lparr>tabs := t0, saved := None\<rparr>"
  note av = schema_available [OF s(2)] schema_available [OF t0(2)] available_same [OF insert_ids_tables]
  note defs = overlay_fs_write_def write_at_def write_new_path_def insert_new_version_def Let_def
  have six: "fault_at E (Suc (tick s)) = Tx_Fault" "fault_at E (Suc (Suc (tick s))) = Fine"
    "fault_at E (Suc (Suc (Suc (tick s)))) = Fine" "fault_at E (Suc (Suc (Suc (Suc (tick s))))) = Fine"
    "fault_at E (Suc (Suc (Suc (Suc (Suc (tick s)))))) = Fine"
    using f(2) f(3) [of 2] f(3) [of 3] f(3) [of 4] f(3) [of 5] by (simp_all add: eval_nat_numeral)
  have none: "select_file_id p t0 = None" using t0(4) by (simp add: select_file_id_None)
  have b: "(bump (bump s))\<lparr>tabs := t0, saved := None\<rparr> = bump (bump ?t)" by (simp add: bump_def)
  have "put_file E p d s = put_file (all_fine E) p d ?t"
    by (simp add: defs f(1) six s(1) fine_steps tx_fault_select av none b split: option.splits)
  moreover obtain s' where "put_file (all_fine E) p d ?t = (0, s')" "tick s' = tick ?t + 6"
      "appended p d (length d) ?t 0 s'"
    using put_six [of "all_fine E" ?t d p] t0 d by auto
  ultimately show ?thesis by auto
qed

section \<open>The loop\<close>

lemma entry_step:
  assumes "read_entry buf pos = Some (nlen, name, data, dlen, pos')" "length buf < 2 ^ 31"
    and "fault_at E (tick s) = Fine"
    and "put_file E (c_string (map char_of_byte name)) data (bump s) = (0, s1)"
  shows "run_state (migrate_entries E buf bid (Suc n) pos k) s = run_state (migrate_entries E buf bid n pos' (k + 1)) s1"
proof -
  have "unat nlen < 2 ^ 32 - 1" using read_entry_lengths [OF assms(1)] assms(2) by simp
  then have "unat (nlen + 1) = unat nlen + 1" by (rule name_no_wrap)
  then show ?thesis
    using assms read_entry_lengths [OF assms(1)] by simp
qed

text \<open>What written files make of the tables.\<close>

definition wrote :: "(string \<times> bytes) list \<Rightarrow> tables \<Rightarrow> tables \<Rightarrow> bool" where
  "wrote es t t' \<longleftrightarrow> migrations t' = migrations t \<and> wf t' \<and> has_schema t' \<and>
     (\<forall>p. history t' p = history t p @ contents_for p es)"

lemma wrote_trans: "wrote es t t' \<Longrightarrow> wrote es' t' t'' \<Longrightarrow> wrote (es @ es') t t''"
  by (simp add: wrote_def contents_for_def)

lemma appended_wrote:
  assumes "appended p d sz s 0 s'" "has_schema (tabs s)"
  shows "wrote [(p, d)] (tabs s) (tabs s')" and "saved s' = saved s"
    and "room (Suc n) (tabs s) \<Longrightarrow> room n (tabs s')"
  using assms by (auto simp: appended_def frame_def wrote_def has_schema_def intro: frame_room)

lemma entries_run:
  assumes "length buf \<le> max_len E" "length buf < 2 ^ 31"
  shows "(\<And>i. i < 7 * length pre \<Longrightarrow> fault_at E (tick s + i) = Fine) \<Longrightarrow>
    wf (tabs s) \<Longrightarrow> has_schema (tabs s) \<Longrightarrow> room (length buf - pos) (tabs s) \<Longrightarrow>
    unpack (length pre + m) (drop pos buf) = Some (pre @ es) \<Longrightarrow>
    \<exists>s1 pos'. run_state (migrate_entries E buf bid (length pre + m) pos k) s =
        run_state (migrate_entries E buf bid m pos' (k + int (length pre))) s1 \<and>
      unpack m (drop pos' buf) = Some es \<and> tick s1 = tick s + 7 * length pre \<and> saved s1 = saved s \<and>
      wrote (map file_entry_of pre) (tabs s) (tabs s1) \<and> pos \<le> pos' \<and> room (length buf - pos') (tabs s1)"
proof (induction pre arbitrary: s pos k)
  case Nil
  then show ?case by (intro exI [of _ s] exI [of _ pos]) (simp add: wrote_def)
next
  case (Cons e pre)
  have "unpack (Suc (length pre + m)) (drop pos buf) = Some (e # pre @ es)" using Cons.prems(5) by simp
  then obtain nlen name data dlen pos' where e: "read_entry buf pos = Some (nlen, name, data, dlen, pos')"
      "e = (name, data)" and es: "unpack (length pre + m) (drop pos' buf) = Some (pre @ es)"
    unfolding read_entry_unpack by (auto split: option.splits prod.splits)
  note len = read_entry_lengths [OF e(1)]
  let ?p = "c_string (map char_of_byte name)"
  have "Suc (length buf - pos') \<le> length buf - pos" using len by arith
  then have room: "room (Suc (length buf - pos')) (tabs s)" using Cons.prems(4) by (rule roomD [rotated])
  have "fault_at E (tick (bump s) + i) = Fine" if "i < 6" for i
    using Cons.prems(1) [of "Suc i"] that by simp
  moreover have "length data \<le> max_len E" "length data < 2 ^ 31" using len assms by simp_all
  ultimately obtain s1 where s1: "put_file E ?p data (bump s) = (0, s1)" "tick s1 = tick s + 7"
      "appended ?p data (length data) (bump s) 0 s1"
    using put_six [of E "bump s" data ?p] Cons.prems(2,3) roomD [OF room, of 1] by auto
  note w = appended_wrote [OF s1(3)]
  have step: "run_state (migrate_entries E buf bid (length (e # pre) + m) pos k) s =
      run_state (migrate_entries E buf bid (length pre + m) pos' (k + 1)) s1"
    using entry_step [OF e(1) assms(2) _ s1(1), of bid "length pre + m" k] Cons.prems(1) [of 0] by simp
  have "fault_at E (tick s1 + i) = Fine" if "i < 7 * length pre" for i
    using Cons.prems(1) [of "7 + i"] that by (simp add: s1(2) add.assoc)
  from Cons.IH [OF this _ _ _ es, of "k + 1"] w room Cons.prems(3) obtain s2 q where s2:
    "run_state (migrate_entries E buf bid (length pre + m) pos' (k + 1)) s1 =
        run_state (migrate_entries E buf bid m q (k + 1 + int (length pre))) s2"
      "unpack m (drop q buf) = Some es" "tick s2 = tick s1 + 7 * length pre" "saved s2 = saved s1"
      "wrote (map file_entry_of pre) (tabs s1) (tabs s2)" "pos' \<le> q" "room (length buf - q) (tabs s2)"
    by (auto simp: wrote_def)
  have k: "k + 1 + int (length pre) = k + int (length (e # pre))" by simp
  have "file_entry_of e = (?p, data)" by (simp add: e(2) file_entry_of_def)
  then have "wrote (map file_entry_of (e # pre)) (tabs s) (tabs s2)"
    using wrote_trans [OF _ s2(5), of "[(?p, data)]" "tabs s"] w(1) Cons.prems(3) by simp
  moreover have "tick s2 = tick s + 7 * length (e # pre)" "pos \<le> q" "saved s2 = saved s"
    using s2 s1(2) w(2) Cons.prems(3) len by simp_all
  ultimately show ?case using s2(1,2,7) step unfolding k by metis
qed

lemma record_without_transaction:
  assumes "fault_at E (tick s) = Fine" "fault_at E (Suc (tick s)) = Fine" "fault_at E (Suc (Suc (tick s))) = Fine"
    and "saved s = None" "has_schema (tabs s)" "\<not> select_migration bid (tabs s)"
  shows "\<exists>s'. run_state (record_migration E bid k) s = (Some MIGRATE_ERR_DB, s') \<and> saved s' = None \<and>
    history (tabs s') = history (tabs s) \<and> select_migration bid (tabs s') \<and> has_schema (tabs s')"
  using assms schema_available [OF assms(5)]
  by (simp add: record_migration_def insert_migration_def fine_steps select_migration_def has_schema_def)

text \<open>From the entry whose lookup loses the transaction to the return.\<close>

lemma entries_rolled_back:
  assumes buf: "length buf \<le> max_len E" "length buf < 2 ^ 31"
    and f: "\<And>n. tick s \<le> n \<Longrightarrow> fault_at E n = (if n = tick s + 2 then Tx_Fault else Fine)"
    and s: "saved s = Some t0" "has_schema (tabs s)"
    and t0: "wf t0" "has_schema t0" "room (length buf - pos) t0" "\<not> select_migration bid t0"
    and u: "unpack (Suc m) (drop pos buf) = Some (e # es)" "length es = m"
    and new: "fst (file_entry_of e) \<notin> snd ` set (file_ids t0)"
  shows "\<exists>s'. run_state (migrate_entries E buf bid (Suc m) pos k) s = (Some MIGRATE_ERR_DB, s') \<and>
    saved s' = None \<and> select_migration bid (tabs s') \<and> has_schema (tabs s') \<and>
    (\<forall>p. history (tabs s') p = history t0 p @ contents_for p (map file_entry_of (e # es)))"
proof -
  obtain nlen name data dlen pos' where e: "read_entry buf pos = Some (nlen, name, data, dlen, pos')"
      "e = (name, data)" and es: "unpack m (drop pos' buf) = Some es"
    using u(1) unfolding read_entry_unpack by (auto split: option.splits prod.splits)
  note len = read_entry_lengths [OF e(1)]
  let ?p = "c_string (map char_of_byte name)"
  have p: "file_entry_of e = (?p, data)" by (simp add: e(2) file_entry_of_def)
  have "Suc (length buf - pos') \<le> length buf - pos" using len by arith
  then have room: "room (Suc (length buf - pos')) t0" using t0(3) by (rule roomD [rotated])
  obtain s1 where s1: "put_file E ?p data (bump s) = (0, s1)" "tick s1 = tick s + 7"
      "appended ?p data (length data) ((bump s)\<lparr>tabs := t0, saved := None\<rparr>) 0 s1"
    using put_rolled_back [of E "bump s" t0 ?p data] f s t0 roomD [OF room, of 1] new p len buf by auto
  note w = appended_wrote [OF s1(3)]
  have step: "run_state (migrate_entries E buf bid (Suc m) pos k) s = run_state (migrate_entries E buf bid m pos' (k + 1)) s1"
    by (rule entry_step [OF e(1) buf(2) _ s1(1)]) (simp add: f)
  have fine: "fault_at E (tick s1 + i) = Fine" for i using f [of "tick s1 + i"] by (simp add: s1(2))
  obtain s2 q where s2: "run_state (migrate_entries E buf bid m pos' (k + 1)) s1 =
        run_state (record_migration E bid (k + 1 + int m)) s2"
      "saved s2 = saved s1" "wrote (map file_entry_of es) (tabs s1) (tabs s2)" "tick s2 = tick s1 + 7 * m"
    using entries_run [OF buf, of es s1 pos' 0 "[]" bid "k + 1"] fine w t0 room es u(2)
    by (auto simp: wrote_def)
  have "wrote ([(?p, data)] @ map file_entry_of es) t0 (tabs s2)"
    using w(1) t0(2) s2(3) by (intro wrote_trans) simp_all
  then have tot: "wrote (map file_entry_of (e # es)) t0 (tabs s2)" by (simp add: p)
  have "fault_at E (tick s2) = Fine" "fault_at E (Suc (tick s2)) = Fine" "fault_at E (Suc (Suc (tick s2))) = Fine"
    using fine [of "7 * m"] fine [of "7 * m + 1"] fine [of "7 * m + 2"] by (simp_all add: s2(4))
  then obtain s' where "run_state (record_migration E bid (k + 1 + int m)) s2 = (Some MIGRATE_ERR_DB, s')"
      "saved s' = None" "history (tabs s') = history (tabs s2)" "select_migration bid (tabs s')" "has_schema (tabs s')"
    using record_without_transaction [of E s2 bid "k + 1 + int m"] s2(2) w(2) tot t0(2,4)
    by (auto simp: wrote_def select_migration_def)
  with step s2(1) tot show ?thesis by (auto simp: wrote_def)
qed

text \<open>
  C37. Atomicity needs more than the code checks. SQLite rolls a transaction back by itself on
  errors such as a full disk. When that happens under the lookup of a path that the database
  does not have yet, \<open>overlay_fs_write\<close> takes the failed lookup for a new path and goes on:
  this file, all later ones and the record of the migration are written outside any
  transaction and stay, although the function reports an error, and the files before it are
  gone for good, because every later start takes the bundle for applied. This holds for
  every bundle, every position in it and every database without an open transaction, where
  the other calls work.
\<close>

theorem auto_rollback_loses_files:
  assumes "saved s = None" "wf (tabs s)" "has_schema (tabs s)" "room (10 * length z) (tabs s)"
    and "z \<noteq> []" "10 * length z < 2 ^ 31" "10 * length z \<le> max_len E" "bounded_uncompress unz"
    and "unz (10 * length z) z = Some buf" "unpack_bundle buf = Some (pre @ e # post)"
    and "\<not> select_migration (compute_bundle_id ctx z) (tabs s)"
    and "fst (file_entry_of e) \<notin> snd ` set (file_ids (tabs s))"
    and "\<And>n. fault_at E n = (if n = tick s + 7 * length pre + 6 then Tx_Fault else Fine)"
  shows "\<exists>s'. run_state (overlay_fs_migrate_assets E unz ctx Main_db (Some z) (length z)) s = (Some MIGRATE_ERR_DB, s') \<and>
    saved s' = None \<and>
    (\<forall>p. history (tabs s') p = history (tabs s) p @ contents_for p (map file_entry_of (e # post))) \<and>
    (\<forall>E'. healthy E' s' \<longrightarrow> fst (run_state (overlay_fs_migrate_assets E' unz ctx Main_db (Some z) (length z)) s') =
       Some MIGRATE_ERR_ALREADY_APPLIED)"
proof -
  let ?id = "compute_bundle_id ctx z" and ?b4 = "bump (bump (bump (bump s)))"
  let ?s0 = "?b4\<lparr>saved := Some (tabs s)\<rparr>" and ?m = "Suc (length post)"
  have buf: "length buf \<le> 10 * length z" using assms(8,9) by (auto simp: bounded_uncompress_def)
  then have lim: "length buf \<le> max_len E" "length buf < 2 ^ 31" using assms(6,7) by simp_all
  have unp: "\<not> length buf < 4" "unpack (unat (read_u32 buf)) (drop 4 buf) = Some (pre @ e # post)"
    using assms(10) by (auto simp: unpack_bundle_def split: if_splits)
  then have n: "unat (read_u32 buf) = length pre + ?m" using unpack_length [of _ _ "pre @ e # post"] by simp
  have conv: "unat (word_of_nat (length z) * 10 :: u64) = 10 * length z"
    using assms(6) by (intro migrate_buffer) simp
  have four: "fault_at E (tick s) = Fine" "fault_at E (Suc (tick s)) = Fine"
      "fault_at E (Suc (Suc (tick s))) = Fine" "fault_at E (Suc (Suc (Suc (tick s)))) = Fine"
    by (simp_all add: assms(13))
  have run: "run_state (overlay_fs_migrate_assets E unz ctx Main_db (Some z) (length z)) s =
      run_state (migrate_entries E buf ?id (length pre + ?m) 4 0) ?s0"
    using assms(1,5,9,11) conv unp(1) schema_available(3) [OF assms(3)]
    by (simp add: overlay_fs_migrate_assets_def migrate_bundle_def Let_def four fine_steps n del: migrate_entries.simps)
  have room: "room (length buf - 4) (tabs s)" using assms(4) buf by (intro roomD [OF assms(4)]) arith
  obtain s1 q where s1: "run_state (migrate_entries E buf ?id (length pre + ?m) 4 0) ?s0 =
        run_state (migrate_entries E buf ?id ?m q (int (length pre))) s1"
      "unpack ?m (drop q buf) = Some (e # post)" "tick s1 = tick s + 4 + 7 * length pre" "saved s1 = Some (tabs s)"
      "wrote (map file_entry_of pre) (tabs s) (tabs s1)" "4 \<le> q"
    using entries_run [OF lim, of pre ?s0 4 ?m "e # post" ?id 0] assms(2,3,13) room unp(2) n
    by (auto simp del: migrate_entries.simps)
  have rq: "room (length buf - q) (tabs s)" using s1(6) by (intro roomD [OF room]) arith
  have fault: "fault_at E n = (if n = tick s1 + 2 then Tx_Fault else Fine)" for n
    by (simp add: assms(13) s1(3))
  have sch1: "has_schema (tabs s1)" using s1(5) by (simp add: wrote_def)
  obtain s' where s': "run_state (migrate_entries E buf ?id ?m q (int (length pre))) s1 = (Some MIGRATE_ERR_DB, s')"
      "saved s' = None" "select_migration ?id (tabs s')" "has_schema (tabs s')"
      "\<forall>p. history (tabs s') p = history (tabs s) p @ contents_for p (map file_entry_of (e # post))"
    using entries_rolled_back [OF lim fault s1(4) sch1 assms(2,3) rq assms(11) s1(2) refl assms(12)] by blast
  have "fst (run_state (overlay_fs_migrate_assets E' unz ctx Main_db (Some z) (length z)) s') =
      Some MIGRATE_ERR_ALREADY_APPLIED" if "healthy E' s'" for E'
    using s'(3) assms(5) healthyD [OF that] by (simp add: overlay_fs_migrate_assets_def Let_def)
  with run s1(1) s' show ?thesis by metis
qed

definition two_file_bundle :: bytes where
  "two_file_bundle = le32 2 @ le32 1 @ map byte_of_char ''a'' @ le32 1 @ [1] @
     le32 1 @ map byte_of_char ''b'' @ le32 1 @ [2]"

lemma two_file_bundle_simps:
  "length two_file_bundle = 24" "two_file_bundle \<noteq> []"
  "unpack_bundle two_file_bundle = Some ([(map byte_of_char ''a'', [1])] @ (map byte_of_char ''b'', [2]) # [])"
proof -
  have count: "unat (read_u32 two_file_bundle) = 2" by (simp add: two_file_bundle_def)
  have "unpack (Suc (Suc 0)) (drop 4 two_file_bundle) = Some [(map byte_of_char ''a'', [1]), (map byte_of_char ''b'', [2])]"
    using take_field_pack [of 1 "map byte_of_char ''a''"] take_field_pack [of 1 "[1]"]
      take_field_pack [of 1 "map byte_of_char ''b''"] take_field_pack [of 1 "[2]" "[]"]
    by (simp add: two_file_bundle_def)
  then show "unpack_bundle two_file_bundle = Some ([(map byte_of_char ''a'', [1])] @ (map byte_of_char ''b'', [2]) # [])"
    by (simp only: unpack_bundle_def count numeral_2_eq_2) (simp add: two_file_bundle_def del: unpack.simps)
  show "length two_file_bundle = 24" by (simp add: two_file_bundle_def)
  then show "two_file_bundle \<noteq> []" by auto
qed

text \<open>The second of two files: the first one is lost.\<close>

theorem auto_rollback_loses_files_witness:
  "\<exists>s'. run_state (overlay_fs_migrate_assets (quiet_env\<lparr>fault_at := \<lambda>n. if n = 13 then Tx_Fault else Fine\<rparr>) stored some_ctx
      Main_db (Some two_file_bundle) (length two_file_bundle)) fresh_conn = (Some MIGRATE_ERR_DB, s') \<and>
     history (tabs s') ''a'' = [] \<and> history (tabs s') ''b'' = [[2]]"
proof -
  let ?E = "quiet_env\<lparr>fault_at := \<lambda>n. if n = 13 then Tx_Fault else Fine\<rparr>"
  have "file_entry_of (map byte_of_char ''b'', [2]) = (''b'', [2])" by (simp add: file_entry_of_def nul_free_def)
  then show ?thesis
    using auto_rollback_loses_files [OF _ _ _ _ two_file_bundle_simps(2) _ _ stored_bounded _ two_file_bundle_simps(3),
        of fresh_conn ?E some_ctx]
    by (auto simp: two_file_bundle_simps(1) stored_def select_migration_def)
qed

end
