(* ===== verification/Db_Init.thy ===== *)
theory Db_Init
  imports Migrate_Props
begin

text \<open>
  Opening and closing databases: \<open>hbf_db_init\<close> and \<open>hbf_db_close\<close> of hbf/db/db.c,
  \<open>overlay_fs_init\<close>, \<open>overlay_fs_close\<close> and \<open>exec_sql_file\<close> of hbf/db/overlay_fs.c, with the
  handles they leave open. \<open>Main_db\<close> in an output variable is the handle just opened. The
  embedded bundle \<open>assets_blob\<close> is generated and so an argument.
\<close>

section \<open>Handles\<close>

text \<open>\<open>sqlite3_open\<close> on ":memory:" starts with an empty database; on a file with what it holds.
  It stores a handle that has to be closed even when it fails, unless that could not be
  allocated. The result says whether it worked, and what \<open>*db\<close> is after it.\<close>

definition sq_open :: "env \<Rightarrow> bool \<Rightarrow> (bool \<times> sqlite3_ptr) dbm" where
  "sq_open E memory = do {
     s0 \<leftarrow> State_Monad.get;
     f \<leftarrow> next_call E;
     s \<leftarrow> State_Monad.get;
     if f = Fine then do {
       State_Monad.set ((if memory then s\<lparr>tabs := empty_tables, saved := None\<rparr> else s)
         \<lparr>open_count := open_count s + 1\<rparr>);
       ret (True, Main_db)
     }
     else if open_error_handle E (tick s0) then do {
       State_Monad.set (s\<lparr>open_count := open_count s + 1\<rparr>);
       ret (False, Main_db)
     }
     else ret (False, Null_db)
   }"

text \<open>\<open>sqlite3_close\<close> rolls an open transaction back and gives the handle up.\<close>

definition sq_close :: "unit dbm" where
  "sq_close = State (\<lambda>s. ((), s\<lparr>tabs := durable s, saved := None, open_count := open_count s - 1\<rparr>))"

text \<open>A statement run by \<open>sqlite3_exec\<close> that does not touch the tables: the pragmas.\<close>

definition sq_pragma :: "env \<Rightarrow> bool dbm" where
  "sq_pragma E = do { f \<leftarrow> next_call E; ret (f = Fine) }"

text \<open>The return code, \<open>*db\<close>, \<open>g_overlay_db\<close>.\<close>

record opened =
  rc :: int
  handle :: sqlite3_ptr
  global :: sqlite3_ptr

text \<open>\<open>sqlite3_close(*db); *db = NULL; return -1;\<close>\<close>

definition give_up :: "sqlite3_ptr \<Rightarrow> opened dbm" where
  "give_up g = do {
     _ \<leftarrow> sq_close;
     ret \<lparr>rc = -1, handle = Null_db, global = g\<rparr>
   }"

section \<open>hbf_db_init\<close>

text \<open>The outcome \<open>None\<close> is the undefined behaviour of the migration.\<close>

definition hbf_db_init ::
    "env \<Rightarrow> (nat \<Rightarrow> bytes \<Rightarrow> bytes option) \<Rightarrow> sha256_ctx \<Rightarrow> bytes \<Rightarrow> sqlite3_ptr \<Rightarrow>
     bool \<Rightarrow> bool \<Rightarrow> opened option dbm" where
  "hbf_db_init E uncompress ctx assets_blob g inmem db_given =
     (if \<not> db_given then ret (Some \<lparr>rc = -1, handle = Null_db, global = g\<rparr>)
      else do {
        (opened_ok, h) \<leftarrow> sq_open E inmem;
        if \<not> opened_ok
        then (if h \<noteq> Null_db then do { r \<leftarrow> give_up g; ret (Some r) }
              else ret (Some \<lparr>rc = -1, handle = h, global = g\<rparr>))
        else do {
          wal \<leftarrow> sq_pragma E;
          fk \<leftarrow> sq_pragma E;
          if \<not> fk then do { r \<leftarrow> give_up g; ret (Some r) }
          else do {
            applied \<leftarrow> sq_exec E schema_sql;
            if \<not> applied then do { r \<leftarrow> give_up g; ret (Some r) }
            else do {
              migrate_rc \<leftarrow> overlay_fs_migrate_assets E uncompress ctx h (Some assets_blob) (length assets_blob);
              (case migrate_rc of
                 None \<Rightarrow> ret None
               | Some st \<Rightarrow>
                   if st \<noteq> MIGRATE_OK \<and> st \<noteq> MIGRATE_ERR_ALREADY_APPLIED then do { r \<leftarrow> give_up g; ret (Some r) }
                   else do {
                     schema_ok \<leftarrow> overlay_fs_check_schema E;
                     if schema_ok \<noteq> 0 then do { r \<leftarrow> give_up g; ret (Some r) }
                     else ret (Some \<lparr>rc = 0, handle = h,
                                      global = overlay_fs_init_global g h\<rparr>)
                   })
            }
          }
        }
      })"

definition hbf_db_close :: "sqlite3_ptr \<Rightarrow> unit dbm" where
  "hbf_db_close db = (case db of Null_db \<Rightarrow> ret () | Main_db \<Rightarrow> sq_close)"

section \<open>overlay_fs_init\<close>

definition exec_sql_file :: "env \<Rightarrow> int dbm" where
  "exec_sql_file E = do { r \<leftarrow> sq_pragma E; ret (if r then 0 else -1) }"

text \<open>The \<open>err\<close> label.\<close>

definition overlay_fs_init_err :: "(int \<times> sqlite3_ptr option) dbm" where
  "overlay_fs_init_err = do { _ \<leftarrow> sq_close; ret (-1, Some Null_db) }"

text \<open>A failed open returns without closing what it got.\<close>

definition overlay_fs_init ::
    "env \<Rightarrow> string option \<Rightarrow> sqlite3_ptr option \<Rightarrow> (int \<times> sqlite3_ptr option) dbm" where
  "overlay_fs_init E db_path db =
     (case (db_path, db) of
        (Some path, Some _) \<Rightarrow>
          do {
            (opened_ok, h) \<leftarrow> sq_open E (path = '':memory:'');
            if \<not> opened_ok then ret (-1, Some h)
            else do {
              fk \<leftarrow> exec_sql_file E;
              if fk < 0 then overlay_fs_init_err
              else do {
                wal \<leftarrow> exec_sql_file E;
                if wal < 0 then overlay_fs_init_err
                else do {
                  sync \<leftarrow> exec_sql_file E;
                  if sync < 0 then overlay_fs_init_err
                  else do {
                    schema \<leftarrow> overlay_fs_check_schema E;
                    if schema < 0 then overlay_fs_init_err
                    else ret (0, Some h)
                  }
                }
              }
            }
          }
      | _ \<Rightarrow> ret (-1, db))"

definition overlay_fs_close :: "sqlite3_ptr \<Rightarrow> unit dbm" where
  "overlay_fs_close db = (case db of Null_db \<Rightarrow> ret () | Main_db \<Rightarrow> sq_close)"

section \<open>Running them\<close>

definition count_by :: "int \<Rightarrow> conn \<Rightarrow> conn" where
  "count_by n s = s\<lparr>open_count := open_count s + n\<rparr>"

lemma count_by_simps [simp]:
  "tabs (count_by n s) = tabs s" "saved (count_by n s) = saved s" "tick (count_by n s) = tick s"
  "open_count (count_by n s) = open_count s + n" "calm E (count_by n s) = calm E s"
  by (simp_all add: count_by_def calm_def)

lemma run_open [simp]:
  "saved s = None \<Longrightarrow> run_state (sq_open E memory) s =
     (if fault_at E (tick s) = Fine
      then ((True, Main_db), count_by 1 (if memory then (bump s)\<lparr>tabs := empty_tables\<rparr> else bump s))
      else if open_error_handle E (tick s) then ((False, Main_db), count_by 1 (bump s))
      else ((False, Null_db), bump s))"
  using calm_no_tx [of s E] by (simp add: sq_open_def run_next_call State_Monad.get_def count_by_def)

lemma run_close [simp]: "run_state sq_close s = ((), count_by (- 1) (s\<lparr>tabs := durable s, saved := None\<rparr>))"
  by (simp add: sq_close_def count_by_def)

lemma run_pragma [simp]: "calm E s \<Longrightarrow> run_state (sq_pragma E) s = (fault_at E (tick s) = Fine, bump s)"
  by (simp add: sq_pragma_def run_next_call)

lemma run_check_schema:
  assumes "calm E s" "run_state (overlay_fs_check_schema E) s = (r, s')"
  shows "(r = 0 \<or> r = -1) \<and> tabs s' = tabs s \<and> saved s' = saved s"
  using assms by (auto simp: overlay_fs_check_schema_def split: if_splits)

lemma check_schema_healthy:
  assumes "healthy E s"
  shows "fst (run_state (overlay_fs_check_schema E) s) = 0"
proof -
  let ?f = "filter (\<lambda>n. n \<in> {''file_versions'', ''file_ids''}) (t_tables (tabs s))"
  have sub: "{''file_versions'', ''file_ids''} \<subseteq> set ?f"
    using assms by (auto simp: healthy_def has_schema_def)
  have "card {''file_versions'', ''file_ids''} \<le> card (set ?f)" by (rule card_mono [OF _ sub]) simp
  then have "2 \<le> length ?f" using card_length [of ?f] by simp
  then show ?thesis using healthyD [OF assms] by (simp add: overlay_fs_check_schema_def)
qed

section \<open>Properties\<close>

lemma schema_applied:
  assumes "openable (tabs s)" "saved s = None" "run_state (sq_exec E schema_sql) s = (True, s')"
  shows "wf (tabs s') \<and> has_schema (tabs s') \<and> saved s' = None \<and> grows (tabs s) (tabs s')"
proof -
  have g: "grows (tabs s) (tabs s')" "saved s' = None"
    using sq_exec_grows [OF subset_refl assms(1,2,3)] by simp_all
  moreover have "has_schema (tabs s') \<and> t_trigger (tabs s')"
    using schema_sql_result [OF assms(1)] sq_exec_pure [OF assms(2,3)] by auto
  ultimately show ?thesis using openable_wf [of "tabs s'"] by (simp add: grows_def)
qed

lemma room_empty: "room k empty_tables \<longleftrightarrow> k < 2 ^ 31"
  by (auto simp: room_def empty_tables_def)

lemma room_rows: "file_ids_seq t' = file_ids_seq t \<Longrightarrow> file_versions t' = file_versions t \<Longrightarrow> room k t' = room k t"
  by (simp add: room_def)

text \<open>The handle count and the transaction, call by call.\<close>

lemma steady_sq_exec [steady_intros]: "steady_in E (\<lambda>E. sq_exec E cs)"
  by (induction cs) (auto intro!: steady_intros)

lemma sq_exec_count: "run_state (sq_exec E cs) s = (r, s') \<Longrightarrow> open_count s' = open_count s"
  using steadyD(2) [OF steady_sq_exec] by blast

lemma check_schema_count: "run_state (overlay_fs_check_schema E) s = (r, s') \<Longrightarrow> open_count s' = open_count s"
  using steadyD(2) [OF steady_check_schema] by blast

lemma migrate_assets_count:
  assumes "run_state (overlay_fs_migrate_assets E unz ctx db blob n) s = (r, s')" "saved s = None"
  shows "open_count s' = open_count s"
proof -
  have loop: "open_count s2 = open_count s1"
    if "run_state (migrate_entries E buf bid m pos k) s1 = (x, s2)" for buf bid m pos k s1 x s2
    using steadyD(2) [OF steady_migrate_entries that] .
  have whole: "open_count s2 = open_count s1"
    if "run_state (migrate_bundle E buf bid) s1 = (x, s2)" "saved s1 = None" for buf bid s1 x s2
    using that calm_no_tx [OF that(2), of E]
    by (auto simp: migrate_bundle_def Let_def split: if_splits dest: loop)
  show ?thesis
    using assms calm_no_tx [OF assms(2), of E]
    by (auto simp: overlay_fs_migrate_assets_def Let_def split: sqlite3_ptr.splits if_splits option.splits dest: whole)
qed

lemma migrate_assets_applied:
  assumes "run_state (overlay_fs_migrate_assets E unz ctx Main_db (Some blob) (length blob)) s = (Some st, s')"
    and "saved s = None" "st \<in> {MIGRATE_OK, MIGRATE_ERR_ALREADY_APPLIED}"
  shows "run_state (overlay_fs_migrate_assets (statement_faults E) unz ctx Main_db (Some blob) (length blob)) s = (Some st, s') \<or>
    tabs s' = tabs s \<and> saved s' = None \<and> select_migration (compute_bundle_id ctx blob) (tabs s)"
proof (cases "st = MIGRATE_OK")
  case True
  then show ?thesis using assms(1,2) migrate_assets_faults_OK by blast
next
  case False
  then have st: "st = MIGRATE_ERR_ALREADY_APPLIED" using assms(3) by simp
  have calm: "calm E s" using assms(2) by (rule calm_no_tx)
  have "\<not> run_state (migrate_bundle E buf bid) s1 = (Some MIGRATE_ERR_ALREADY_APPLIED, s')" for buf bid s1
    using migrate_bundle_not_applied [of E buf bid s1] by (metis fst_conv)
  then show ?thesis
    using migrate_assets_cases [OF calm assms(1)] assms(2) st by auto
qed

text \<open>What the process has after the bundle: all its files appended, or their record found.\<close>

lemma migrated_rest:
  assumes "wf (tabs s)" "has_schema (tabs s)" "saved s = None" "room (10 * length blob) (tabs s)"
    and "10 * length blob < 2 ^ 31" "bounded_uncompress unz"
    and run: "run_state (overlay_fs_migrate_assets E unz ctx Main_db (Some blob) (length blob)) s = (Some st, s1)"
  shows "(st \<in> {MIGRATE_OK, MIGRATE_ERR_ALREADY_APPLIED} \<longrightarrow> wf (tabs s1) \<and> has_schema (tabs s1) \<and>
      saved s1 = None \<and> select_migration (compute_bundle_id ctx blob) (tabs s1)) \<and>
    (no_tx_fault E \<or> st \<in> {MIGRATE_OK, MIGRATE_ERR_ALREADY_APPLIED} \<longrightarrow>
      (\<forall>p. \<exists>new. history (durable s1) p = history (tabs s) p @ new))"
proof -
  have len: "10 * length blob < 2 ^ 64" using assms(5) by simp
  have calm: "?thesis" if "no_tx_fault F"
    "run_state (overlay_fs_migrate_assets F unz ctx Main_db (Some blob) (length blob)) s = (Some st, s1)" for F
  proof -
    have "(st = MIGRATE_OK \<and> (\<exists>es. migrated (compute_bundle_id ctx blob) 0 es (tabs s) s1)) \<or>
        (st \<noteq> MIGRATE_OK \<and> undone (tabs s) s1 \<and> (st = MIGRATE_ERR_ALREADY_APPLIED \<longrightarrow>
          tabs s1 = tabs s \<and> saved s1 = None \<and> select_migration (compute_bundle_id ctx blob) (tabs s)))"
      using migrate_assets_outcome [OF that(1) assms(3,1,4) len assms(6) that(2)] by auto
    then show ?thesis
      using assms(1,2) by (auto simp: migrated_def undone_def has_schema_def durable_def select_migration_def)
  qed
  show ?thesis
  proof (cases "st \<in> {MIGRATE_OK, MIGRATE_ERR_ALREADY_APPLIED}")
    case True
    from migrate_assets_applied [OF run assms(3) True] show ?thesis
    proof
      assume "run_state (overlay_fs_migrate_assets (statement_faults E) unz ctx Main_db (Some blob) (length blob)) s = (Some st, s1)"
      then show ?thesis by (rule calm [OF statement_faults_no_tx])
    next
      assume "tabs s1 = tabs s \<and> saved s1 = None \<and> select_migration (compute_bundle_id ctx blob) (tabs s)"
      then show ?thesis using assms(1,2) by (simp add: durable_def)
    qed
  next
    case False
    then show ?thesis using calm [OF _ run] by blast
  qed
qed

lemma db_init_result:
  assumes "saved s = None" "\<not> inmem \<Longrightarrow> openable (tabs s) \<and> room (10 * length blob) (tabs s)"
    and "10 * length blob < 2 ^ 31" "bounded_uncompress unz"
    and "run_state (hbf_db_init E unz ctx blob g inmem True) s = (r, s')"
  shows "\<exists>res. r = Some res \<and> saved s' = None \<and>
    (rc res = 0 \<and> handle res = Main_db \<and> open_count s' = open_count s + 1 \<and> global res = Main_db \<and>
       wf (tabs s') \<and> has_schema (tabs s') \<and> select_migration (compute_bundle_id ctx blob) (tabs s') \<or>
     rc res = -1 \<and> handle res = Null_db \<and> open_count s' = open_count s \<and> global res = g) \<and>
    (\<not> inmem \<and> (no_tx_fault E \<or> rc res = 0) \<longrightarrow> (\<forall>p. \<exists>new. history (tabs s') p = history (tabs s) p @ new))"
proof -
  note calm = calm_no_tx
  let ?s1 = "count_by 1 (if inmem then (bump s)\<lparr>tabs := empty_tables\<rparr> else bump s)"
  let ?s2 = "bump (bump ?s1)"
  have s2: "saved ?s2 = None" "openable (tabs ?s2)" "room (10 * length blob) (tabs ?s2)"
      "\<not> inmem \<longrightarrow> tabs ?s2 = tabs s" "open_count ?s2 = open_count s + 1"
    using assms(1,2,3) by (auto simp: room_empty)
  have refl: "\<exists>new. h = h @ new" for h :: "bytes list" by auto
  show ?thesis
  proof (cases "fault_at E (tick s) = Fine \<and> fault_at E (Suc (Suc (tick s))) = Fine")
    case False
    then show ?thesis
      using assms(1,5) s2 calm
      by (auto simp: hbf_db_init_def give_up_def durable_def split: if_splits)
  next
    case True
    obtain ok s3 where sch: "run_state (sq_exec E schema_sql) ?s2 = (ok, s3)" by (rule prod.exhaust)
    have g3: "grows (tabs ?s2) (tabs s3)" "saved s3 = None"
      using sq_exec_grows [OF subset_refl s2(2,1) sch] by simp_all
    have c3: "open_count s3 = open_count s + 1" using sq_exec_count [OF sch] s2(5) by simp
    show ?thesis
    proof (cases ok)
      case False
      then show ?thesis
        using assms(1,5) True sch calm g3 s2(4) c3
        by (auto simp: hbf_db_init_def give_up_def durable_def grows_def split: if_splits)
    next
      case ok: True
      have s3: "wf (tabs s3)" "has_schema (tabs s3)" "saved s3 = None"
        using schema_applied [OF s2(2,1)] sch ok by simp_all
      have room3: "room (10 * length blob) (tabs s3)"
        using g3(1) s2(3) room_rows [of "tabs s3" "tabs ?s2"] by (simp add: grows_def)
      obtain m s4 where mig: "run_state (overlay_fs_migrate_assets E unz ctx Main_db (Some blob) (length blob)) s3 = (m, s4)"
        by (rule prod.exhaust)
      have "10 * length blob < 2 ^ 32" using assms(3) by simp
      from migrate_assets_not_None [OF this assms(4), of E ctx Main_db "Some blob" s3] mig
      obtain st where st: "m = Some st" by auto
      note rest = migrated_rest [OF s3 room3 assms(3,4) mig [unfolded st]]
      have c4: "open_count s4 = open_count s + 1" using migrate_assets_count [OF mig s3(3)] c3 by simp
      have hist: "\<exists>new. history (durable s4) p = history (tabs s) p @ new"
        if "\<not> inmem" "no_tx_fault E \<or> st \<in> {MIGRATE_OK, MIGRATE_ERR_ALREADY_APPLIED}" for p
        using rest g3(1) s2(4) that by (auto simp: grows_def)
      obtain c s5 where chk: "run_state (overlay_fs_check_schema E) s4 = (c, s5)" by (rule prod.exhaust)
      have c5: "open_count s5 = open_count s + 1" using check_schema_count [OF chk] c4 by simp
      show ?thesis
      proof (cases "st \<in> {MIGRATE_OK, MIGRATE_ERR_ALREADY_APPLIED}")
        case False
        then have "r = Some \<lparr>rc = -1, handle = Null_db, global = g\<rparr>"
            "s' = count_by (- 1) (s4\<lparr>tabs := durable s4, saved := None\<rparr>)"
          using assms(1,5) True sch ok mig st calm
          by (auto simp: hbf_db_init_def give_up_def split: if_splits)
        then show ?thesis using hist c4 by (simp add: durable_def)
      next
        case applied: True
        then have s4: "saved s4 = None" using rest by blast
        note c = run_check_schema [OF calm_no_tx [OF s4] chk]
        show ?thesis
          using assms(1,5) True sch ok mig st chk c rest hist calm applied s4 c5
          by (auto simp: hbf_db_init_def give_up_def overlay_fs_init_global_def durable_def split: if_splits)
      qed
    qed
  qed
qed

text \<open>
  C14. \<open>hbf_db_init\<close>, in every environment and on any database an earlier run may have left
  (with a script that stopped halfway, too): either it returns 0, one more handle is open
  than before, which is the output and the global one, on a well-formed database that has the
  schema and this bundle applied and no open transaction; or it returns -1, the output is
  NULL, as many handles are open as before (so the one it opened, also by an \<open>sqlite3_open\<close> that
  failed, was closed exactly once) and the global handle is unchanged. No file version that
  was in the database is lost, unless it returns -1 after SQLite rolled the transaction back
  by itself.
\<close>

theorem db_init_outcome:
  assumes "saved s = None" "\<not> inmem \<Longrightarrow> openable (tabs s) \<and> room (10 * length blob) (tabs s)"
    and "10 * length blob < 2 ^ 31" "bounded_uncompress unz"
    and "run_state (hbf_db_init E unz ctx blob g inmem True) s = (r, s')"
  shows "\<exists>res. r = Some res \<and> saved s' = None \<and>
    (rc res = 0 \<and> handle res = Main_db \<and> open_count s' = open_count s + 1 \<and> global res = Main_db \<and>
       wf (tabs s') \<and> has_schema (tabs s') \<and> select_migration (compute_bundle_id ctx blob) (tabs s') \<or>
     rc res = -1 \<and> handle res = Null_db \<and> open_count s' = open_count s \<and> global res = g) \<and>
    (\<not> inmem \<and> (no_tx_fault E \<or> rc res = 0) \<longrightarrow> (\<forall>p. \<exists>new. history (tabs s') p = history (tabs s) p @ new))"
  by (rule db_init_result [OF assms])

text \<open>An \<open>sqlite3_open\<close> that fails and hands out a handle.\<close>

theorem db_init_outcome_witness:
  "\<exists>res s'. run_state (hbf_db_init (quiet_env\<lparr>fault_at := \<lambda>_. Stmt_Fault\<rparr>) stored some_ctx one_file_bundle Null_db True True)
      fresh_conn = (Some res, s') \<and> (rc res = 0 \<and> open_count s' = 1 \<or> rc res = -1 \<and> open_count s' = 0)"
proof -
  obtain r s' where run: "run_state (hbf_db_init (quiet_env\<lparr>fault_at := \<lambda>_. Stmt_Fault\<rparr>) stored some_ctx one_file_bundle
      Null_db True True) fresh_conn = (r, s')" by (rule prod.exhaust)
  show ?thesis
    using db_init_outcome [OF _ _ _ stored_bounded run] run by auto
qed

lemma sq_exec_fine:
  "\<forall>n. fault_at E n = Fine \<Longrightarrow> fold (\<lambda>c r. Option.bind r c) cs (Some (tabs s)) = Some t \<Longrightarrow>
     \<exists>s'. run_state (sq_exec E cs) s = (True, s') \<and> tabs s' = t \<and> saved s' = saved s"
proof (induction cs arbitrary: s)
  case Nil
  then show ?case by simp
next
  case (Cons c cs)
  have stuck: "fold (\<lambda>c r. Option.bind r c) cs None = None" for cs :: "(tables \<Rightarrow> tables option) list"
    by (induction cs) simp_all
  obtain t1 where t1: "c (tabs s) = Some t1" "fold (\<lambda>c r. Option.bind r c) cs (Some t1) = Some t"
    using Cons.prems(2) stuck by (cases "c (tabs s)") simp_all
  have calm: "calm E s" using Cons.prems(1) by (simp add: calm_def)
  show ?case
    using Cons.IH [of "(bump s)\<lparr>tabs := t1\<rparr>"] Cons.prems(1) t1 calm by (simp add: bump_def)
qed

definition init_ok :: opened where
  "init_ok = \<lparr>rc = 0, handle = Main_db, global = Main_db\<rparr>"

text \<open>A start without failing calls, up to and after the migration.\<close>

lemma init_fine:
  assumes fine: "\<forall>n. fault_at E n = Fine" and s: "saved s = None" "openable (if inmem then empty_tables else tabs s)"
  shows "\<exists>s3. wf (tabs s3) \<and> has_schema (tabs s3) \<and> saved s3 = None \<and>
    grows (if inmem then empty_tables else tabs s) (tabs s3) \<and>
    (\<forall>st s4. run_state (overlay_fs_migrate_assets E unz ctx Main_db (Some blob) (length blob)) s3 = (Some st, s4) \<longrightarrow>
       st \<in> {MIGRATE_OK, MIGRATE_ERR_ALREADY_APPLIED} \<longrightarrow> saved s4 = None \<longrightarrow> has_schema (tabs s4) \<longrightarrow>
       (\<exists>s5. run_state (hbf_db_init E unz ctx blob g inmem True) s = (Some init_ok, s5) \<and>
          tabs s5 = tabs s4 \<and> saved s5 = None \<and> open_count s5 = open_count s + 1))"
proof -
  have calm: "calm E s" for s using fine by (simp add: calm_def)
  let ?s1 = "count_by 1 (if inmem then (bump s)\<lparr>tabs := empty_tables\<rparr> else bump s)"
  let ?s2 = "bump (bump ?s1)"
  have s2: "saved ?s2 = None" "tabs ?s2 = (if inmem then empty_tables else tabs s)" using s(1) by simp_all
  have op: "openable (tabs ?s2)" using s(2) by (simp only: s2(2))
  obtain s3 where s3: "run_state (sq_exec E schema_sql) ?s2 = (True, s3)"
    using schema_sql_result [OF op] sq_exec_fine [OF fine] by blast
  note sch = schema_applied [OF op s2(1) s3]
  have "\<exists>s5. run_state (hbf_db_init E unz ctx blob g inmem True) s = (Some init_ok, s5) \<and>
      tabs s5 = tabs s4 \<and> saved s5 = None \<and> open_count s5 = open_count s + 1"
    if "run_state (overlay_fs_migrate_assets E unz ctx Main_db (Some blob) (length blob)) s3 = (Some st, s4)"
      "st \<in> {MIGRATE_OK, MIGRATE_ERR_ALREADY_APPLIED}" "saved s4 = None" "has_schema (tabs s4)" for st s4
  proof -
    obtain c s5 where chk: "run_state (overlay_fs_check_schema E) s4 = (c, s5)" by (rule prod.exhaust)
    have "healthy E s4" using fine that(4) by (simp add: healthy_def)
    then have c: "c = 0" "tabs s5 = tabs s4" "saved s5 = None"
      using check_schema_healthy [of E s4] run_check_schema [OF calm chk] chk that(3) by simp_all
    have "open_count s5 = open_count s + 1"
      using check_schema_count [OF chk] migrate_assets_count [OF that(1)] sch sq_exec_count [OF s3] by simp
    moreover have "run_state (hbf_db_init E unz ctx blob g inmem True) s = (Some init_ok, s5)"
      using s(1) s3 that(1,2) chk c(1) fine calm
      by (auto simp: hbf_db_init_def overlay_fs_init_global_def init_ok_def)
    ultimately show ?thesis using c by blast
  qed
  with sch s2(2) show ?thesis by auto
qed

text \<open>
  C18. Where no call fails, \<open>hbf_db_init\<close> on a new database with a bundle of \<open>asset_packer\<close> that
  is not more than ten times compressed returns 0 with one more open handle, and the server's reader
  \<open>overlay_fs_read_file\<close> returns every file of the decoded bundle; a second start on what the
  first one left returns 0 again and changes no file.
\<close>

theorem db_init_serves_bundle:
  assumes "\<forall>n. fault_at E n = Fine" "saved s = None" "inmem \<or> tabs s = empty_tables"
    and "blob \<noteq> []" "10 * length blob < 2 ^ 31" "10 * length blob \<le> max_len E" "bounded_uncompress unz"
    and "unz (10 * length blob) blob = Some buf" "unpack_bundle buf = Some es"
  shows "\<exists>s1 s2. run_state (hbf_db_init E unz ctx blob Null_db inmem True) s =
      (Some \<lparr>rc = 0, handle = Main_db, global = Main_db\<rparr>, s1) \<and> open_count s1 = open_count s + 1 \<and>
    (\<forall>p. get_by_view E p s1 = (let cs = contents_for p (map file_entry_of es)
       in if cs = [] then None else Some (last cs))) \<and>
    run_state (hbf_db_init E unz ctx blob Null_db False True) s1 =
      (Some \<lparr>rc = 0, handle = Main_db, global = Main_db\<rparr>, s2) \<and> open_count s2 = open_count s1 + 1 \<and>
    history (tabs s2) = history (tabs s1)"
proof -
  let ?t0 = "if inmem then empty_tables else tabs s" and ?id = "compute_bundle_id ctx blob"
  have t0: "?t0 = empty_tables" using assms(3) by auto
  then have op: "openable ?t0" by (simp only: openable_empty)
  obtain s3 where s3: "wf (tabs s3)" "has_schema (tabs s3)" "saved s3 = None" "grows ?t0 (tabs s3)"
    and init: "\<And>st s4. run_state (overlay_fs_migrate_assets E unz ctx Main_db (Some blob) (length blob)) s3 = (Some st, s4) \<Longrightarrow>
       st \<in> {MIGRATE_OK, MIGRATE_ERR_ALREADY_APPLIED} \<Longrightarrow> saved s4 = None \<Longrightarrow> has_schema (tabs s4) \<Longrightarrow>
       (\<exists>s5. run_state (hbf_db_init E unz ctx blob Null_db inmem True) s = (Some init_ok, s5) \<and>
          tabs s5 = tabs s4 \<and> saved s5 = None \<and> open_count s5 = open_count s + 1)"
    using init_fine [OF assms(1,2) op] by blast
  have new: "\<not> select_migration ?id (tabs s3)" "room (10 * length blob) (tabs s3)" "history (tabs s3) p = []" for p
    using s3(4) t0 assms(5) room_rows [of "tabs s3" empty_tables] room_empty
    by (auto simp: grows_def empty_tables_def select_migration_def history_def select_file_id_def)
  have h3: "healthy E s3" using assms(1) s3(2) by (simp add: healthy_def)
  obtain s4 where mig: "run_state (overlay_fs_migrate_assets E unz ctx Main_db (Some blob) (length blob)) s3 =
      (Some MIGRATE_OK, s4)"
    using migrate_assets_healthy [OF h3 s3(3,1) new(2) assms(4-9) new(1)] by (metis prod.collapse)
  have no_tx: "no_tx_fault E" using assms(1) by (simp add: no_tx_fault_def)
  have "10 * length blob < 2 ^ 64" using assms(5) by simp
  then have m: "migrated ?id 0 (map file_entry_of es) (tabs s3) s4"
    using migrate_assets_outcome [OF no_tx s3(3,1) new(2) _ assms(7) mig] assms(8,9) by auto
  then have s4: "wf (tabs s4)" "saved s4 = None" "has_schema (tabs s4)" "select_migration ?id (tabs s4)"
      "\<And>p. history (tabs s4) p = contents_for p (map file_entry_of es)"
    using s3(2) new(3) by (auto simp: migrated_def has_schema_def select_migration_def)
  obtain s1 where s1: "run_state (hbf_db_init E unz ctx blob Null_db inmem True) s = (Some init_ok, s1)"
      "tabs s1 = tabs s4" "saved s1 = None" "open_count s1 = open_count s + 1"
    using init [OF mig _ s4(2,3)] by auto
  have h1: "healthy E s1" using assms(1) s1(2) s4(3) by (simp add: healthy_def)
  have op1: "openable (if False then empty_tables else tabs s1)" using s1(2) s4(1) by (simp add: wf_openable)
  obtain t3 where t3: "has_schema (tabs t3)" "saved t3 = None" "grows (tabs s1) (tabs t3)"
    and init2: "\<And>st s4. run_state (overlay_fs_migrate_assets E unz ctx Main_db (Some blob) (length blob)) t3 = (Some st, s4) \<Longrightarrow>
       st \<in> {MIGRATE_OK, MIGRATE_ERR_ALREADY_APPLIED} \<Longrightarrow> saved s4 = None \<Longrightarrow> has_schema (tabs s4) \<Longrightarrow>
       (\<exists>s5. run_state (hbf_db_init E unz ctx blob Null_db False True) s1 = (Some init_ok, s5) \<and>
          tabs s5 = tabs s4 \<and> saved s5 = None \<and> open_count s5 = open_count s1 + 1)"
    using init_fine [OF assms(1) s1(3) op1] by (simp only: if_False) blast
  have ht: "healthy E t3" using assms(1) t3(1) by (simp add: healthy_def)
  have "select_migration ?id (tabs t3)" using t3(3) s1(2) s4(4) by (simp add: grows_def select_migration_def)
  then have again: "run_state (overlay_fs_migrate_assets E unz ctx Main_db (Some blob) (length blob)) t3 =
      (Some MIGRATE_ERR_ALREADY_APPLIED, bump (bump t3))"
    using assms(4) healthyD [OF ht] by (simp add: overlay_fs_migrate_assets_def Let_def)
  obtain s2 where s2: "run_state (hbf_db_init E unz ctx blob Null_db False True) s1 = (Some init_ok, s2)"
      "tabs s2 = tabs t3" "open_count s2 = open_count s1 + 1"
    using init2 [OF again] t3(1,2) by auto
  have read: "get_by_view E p s1 = (let cs = contents_for p (map file_entry_of es)
       in if cs = [] then None else Some (last cs))" for p
    using read_by_view_healthy [OF _ h1, of p 1 "(None, 0)"] s4(1,5) s1(2) by (simp add: file_of_def Let_def)
  have hist: "history (tabs s2) = history (tabs s1)" using s2(2) t3(3) by (simp add: grows_def)
  show ?thesis
    using s1(1,4) s2(1,3) read hist unfolding init_ok_def by blast
qed

theorem db_init_serves_bundle_witness:
  "\<exists>s1. run_state (hbf_db_init quiet_env stored some_ctx one_file_bundle Null_db True True) fresh_conn =
      (Some \<lparr>rc = 0, handle = Main_db, global = Main_db\<rparr>, s1) \<and>
    get_by_view quiet_env ''a'' s1 = Some [1, 2]"
proof -
  have "one_file_bundle \<noteq> []" by (simp flip: length_0_conv)
  moreover have "stored (10 * length one_file_bundle) one_file_bundle = Some one_file_bundle"
    by (simp add: stored_def)
  ultimately show ?thesis
    using db_init_serves_bundle [of quiet_env fresh_conn True one_file_bundle stored one_file_bundle
        "[(map byte_of_char ''a'', [1, 2])]" some_ctx]
    by (auto simp: file_entry_of_def nul_free_def)
qed

end
