(* ===== verification/Response.thy ===== *)
theory Response
  imports Cstd
begin

text \<open>
  hbf/qjs/bindings/response.c: the response object that JavaScript fills and the server sends.
  Converting an argument to a C string or number can run JavaScript (a \<open>toString\<close> or \<open>valueOf\<close>
  method), which can call the same methods again: a conversion is a function on the response
  that gives the converted value, or \<open>None\<close> for an exception, and the response it leaves.
  An outcome \<open>None\<close> of a method is undefined behaviour of the C code, a write behind
  \<open>headers[32]\<close>. QuickJS keeps the number of arguments at least at the declared length, so
  \<open>argv[0]\<close> and \<open>argv[1]\<close> exist.
\<close>

section \<open>Data\<close>

text \<open>\<open>headers\<close> holds the first \<open>header_count\<close> slots, each a string or the NULL of a failed
  \<open>strdup\<close>. \<open>lost\<close> is not in the code: it counts bodies whose only pointer was overwritten.\<close>

record hbf_response =
  status_code :: int
  headers :: "string option list"
  body :: "string option"
  sent :: bool
  lost :: nat

abbreviation header_count :: "hbf_response \<Rightarrow> nat" where
  "header_count r \<equiv> length (headers r)"

abbreviation body_len :: "hbf_response \<Rightarrow> nat" where
  "body_len r \<equiv> (case body r of None \<Rightarrow> 0 | Some b \<Rightarrow> length b)"

definition max_headers :: nat where
  "max_headers = 32"

datatype js_ret = JS_UNDEFINED | JS_EXCEPTION

type_synonym 'a conv = "hbf_response \<Rightarrow> ('a option \<times> hbf_response) option"

type_synonym js_result = "(js_ret \<times> hbf_response) option"

text \<open>\<open>res->headers[res->header_count++] = h\<close>.\<close>

definition push_header :: "string option \<Rightarrow> hbf_response \<Rightarrow> hbf_response option" where
  "push_header h r =
     (if header_count r < max_headers then Some (r\<lparr>headers := headers r @ [h]\<rparr>) else None)"

text \<open>\<open>res->body = malloc(len + 1)\<close>, over whatever pointer was there, and the copy if it worked.\<close>

definition store_body :: "bool \<Rightarrow> string \<Rightarrow> hbf_response \<Rightarrow> hbf_response" where
  "store_body mem b r =
     (let r1 = r\<lparr>lost := (case body r of None \<Rightarrow> lost r | Some _ \<Rightarrow> Suc (lost r)), body := None\<rparr>
      in if mem then r1\<lparr>body := Some b, sent := True\<rparr> else r1)"

section \<open>The class of the object\<close>

text \<open>\<open>hbf_response_class_id\<close> is set to 0 and then to what \<open>JS_NewClassID\<close> makes of 0 in the new
  runtime; an object is a response if its class is the current one.\<close>

definition hbf_qjs_init_response_class :: "(nat \<Rightarrow> nat) \<Rightarrow> nat \<Rightarrow> nat" where
  "hbf_qjs_init_response_class js_new_class_id hbf_response_class_id = js_new_class_id 0"

definition get_response_data :: "nat \<Rightarrow> (nat \<times> hbf_response) option \<Rightarrow> hbf_response option" where
  "get_response_data hbf_response_class_id this =
     (case this of
        None \<Rightarrow> None
      | Some (class_id, res) \<Rightarrow> if class_id = hbf_response_class_id then Some res else None)"

section \<open>The methods of the object\<close>

text \<open>\<open>own\<close> says whether \<open>get_response_data\<close> finds the response behind \<open>this\<close>, \<open>mem\<close> whether \<open>malloc\<close> succeeds.\<close>

definition js_res_status :: "bool \<Rightarrow> int conv \<Rightarrow> hbf_response \<Rightarrow> js_result" where
  "js_res_status own code r =
     (if \<not> own then Some (JS_EXCEPTION, r)
      else case code r of
        None \<Rightarrow> None
      | Some (None, r1) \<Rightarrow> Some (JS_EXCEPTION, r1)
      | Some (Some s, r1) \<Rightarrow> Some (JS_UNDEFINED, r1\<lparr>status_code := s\<rparr>))"

definition js_res_send :: "bool \<Rightarrow> bool \<Rightarrow> string conv \<Rightarrow> hbf_response \<Rightarrow> js_result" where
  "js_res_send own mem content r =
     (if \<not> own then Some (JS_EXCEPTION, r)
      else if sent r then Some (JS_UNDEFINED, r)
      else case content r of
        None \<Rightarrow> None
      | Some (None, r1) \<Rightarrow> Some (JS_EXCEPTION, r1)
      | Some (Some b, r1) \<Rightarrow> Some (JS_UNDEFINED, store_body mem b r1))"

text \<open>\<open>json\<close> is \<open>JSON.stringify\<close> followed by the conversion of its result: \<open>None\<close> if the former
  throws, \<open>Some None\<close> if the latter gives no string. \<open>dup\<close> says whether \<open>strdup\<close> succeeds.\<close>

definition js_res_json ::
    "bool \<Rightarrow> bool \<Rightarrow> bool \<Rightarrow> string option conv \<Rightarrow> hbf_response \<Rightarrow> js_result" where
  "js_res_json own mem dup json r =
     (if \<not> own then Some (JS_EXCEPTION, r)
      else if sent r then Some (JS_UNDEFINED, r)
      else case json r of
        None \<Rightarrow> None
      | Some (None, r1) \<Rightarrow> Some (JS_EXCEPTION, r1)
      | Some (Some None, r1) \<Rightarrow> Some (JS_UNDEFINED, r1)
      | Some (Some (Some b), r1) \<Rightarrow>
          (let r2 = store_body mem b r1
           in if mem \<and> header_count r2 < 32
              then map_option (Pair JS_UNDEFINED)
                (push_header (if dup then Some ''Content-Type: application/json'' else None) r2)
              else Some (JS_UNDEFINED, r2)))"

text \<open>The bound is checked before the conversions.\<close>

definition js_res_set ::
    "bool \<Rightarrow> bool \<Rightarrow> string conv \<Rightarrow> string conv \<Rightarrow> hbf_response \<Rightarrow> js_result" where
  "js_res_set own mem name_arg value_arg r =
     (if \<not> own then Some (JS_EXCEPTION, r)
      else if header_count r \<ge> 32 then Some (JS_UNDEFINED, r)
      else case name_arg r of None \<Rightarrow> None | Some (name, r1) \<Rightarrow>
        (case value_arg r1 of None \<Rightarrow> None | Some (val, r2) \<Rightarrow>
          (case (name, val) of
             (Some n, Some v) \<Rightarrow>
               if mem then map_option (Pair JS_UNDEFINED)
                 (push_header (Some (snprintf_s (length n + length v + 3) (n @ '': '' @ v))) r2)
               else Some (JS_UNDEFINED, r2)
           | _ \<Rightarrow> Some (JS_UNDEFINED, r2))))"

section \<open>Scripts\<close>

text \<open>What a request handler in JavaScript can do to the response: a sequence of method calls,
  where the conversion of an argument runs a sequence of calls of its own and then gives a
  value or throws.\<close>

datatype call =
    Call_status bool "call list" "int option"
  | Call_send bool bool "call list" "string option"
  | Call_json bool bool bool "call list" "string option option"
  | Call_set bool bool "call list" "string option" "call list" "string option"

fun run_calls :: "call list \<Rightarrow> hbf_response \<Rightarrow> hbf_response option"
and run_call :: "call \<Rightarrow> hbf_response \<Rightarrow> js_result" where
  "run_calls [] r = Some r"
| "run_calls (c # cs) r = (case run_call c r of None \<Rightarrow> None | Some (_, r') \<Rightarrow> run_calls cs r')"
| "run_call (Call_status own inner v) r =
     js_res_status own (\<lambda>r1. map_option (Pair v) (run_calls inner r1)) r"
| "run_call (Call_send own mem inner v) r =
     js_res_send own mem (\<lambda>r1. map_option (Pair v) (run_calls inner r1)) r"
| "run_call (Call_json own mem dup inner v) r =
     js_res_json own mem dup (\<lambda>r1. map_option (Pair v) (run_calls inner r1)) r"
| "run_call (Call_set own mem inner1 v1 inner2 v2) r =
     js_res_set own mem (\<lambda>r1. map_option (Pair v1) (run_calls inner1 r1))
       (\<lambda>r1. map_option (Pair v2) (run_calls inner2 r1)) r"

section \<open>Creating, sending, freeing\<close>

text \<open>\<open>res_data\<close> is the caller's variable with arbitrary contents.\<close>

definition hbf_qjs_create_response :: "hbf_response \<Rightarrow> hbf_response" where
  "hbf_qjs_create_response res_data =
     res_data\<lparr>status_code := 200, headers := [], body := None, sent := False\<rparr>"

definition crlf :: string where
  "crlf = [CHR 0x0D, CHR 0x0A]"

text \<open>What is written to the connection; \<open>printf\<close> shows a NULL string as "(null)".\<close>

definition hbf_send_response :: "hbf_response \<Rightarrow> string" where
  "hbf_send_response r =
     ''HTTP/1.1 '' @ decimal_int (status_code r) @ '' OK'' @ crlf @
     concat (map (\<lambda>h. (case h of None \<Rightarrow> ''(null)'' | Some t \<Rightarrow> t) @ crlf) (headers r)) @
     (case body r of
        Some b \<Rightarrow>
          if length b > 0 then ''Content-Length: '' @ decimal (length b) @ crlf @ crlf @ b
          else ''Content-Length: 0'' @ crlf @ crlf
      | None \<Rightarrow> ''Content-Length: 0'' @ crlf @ crlf)"

definition hbf_response_free :: "hbf_response \<Rightarrow> hbf_response" where
  "hbf_response_free r = r\<lparr>headers := [], body := None, sent := False\<rparr>"

end
