(* ===== verification/Response_Props.thy ===== *)
theory Response_Props
  imports Response
begin

text \<open>
  The properties of the response object: the header array is not overrun by scripts that do
  not re-enter \<open>set\<close> while its arguments are converted, and is overrun by one that does; the
  first body sent is the one that stays; the bytes on the wire are a well-formed message for
  headers without line breaks.
\<close>

section \<open>The header array\<close>

text \<open>No call of \<open>set\<close>, at any depth, has arguments whose conversion calls back.\<close>

fun set_plain :: "call \<Rightarrow> bool" where
  "set_plain (Call_status own inner v) = list_all set_plain inner"
| "set_plain (Call_send own mem inner v) = list_all set_plain inner"
| "set_plain (Call_json own mem dup inner v) = list_all set_plain inner"
| "set_plain (Call_set own mem inner1 v1 inner2 v2) = (inner1 = [] \<and> inner2 = [])"

lemma store_body_headers [simp]: "headers (store_body mem b r) = headers r"
  by (simp add: store_body_def Let_def)

lemmas js_res_defs = js_res_status_def js_res_send_def js_res_json_def js_res_set_def

lemma plain_calls_safe:
  "list_all set_plain cs \<Longrightarrow> header_count r \<le> 32 \<Longrightarrow> \<exists>r'. run_calls cs r = Some r' \<and> header_count r' \<le> 32"
  "set_plain c \<Longrightarrow> header_count r \<le> 32 \<Longrightarrow> \<exists>x r'. run_call c r = Some (x, r') \<and> header_count r' \<le> 32"
proof (induction cs r and c r rule: run_calls_run_call.induct)
  case (2 c cs r)
  then obtain x r1 where "run_call c r = Some (x, r1)" "header_count r1 \<le> 32" by auto
  with 2 show ?case by simp
next
  case (3 own inner v r)
  then obtain r1 where "run_calls inner r = Some r1" "header_count r1 \<le> 32" by auto
  then show ?case using 3(3) by (cases v) (auto simp: js_res_status_def)
next
  case (4 own mem inner v r)
  then obtain r1 where "run_calls inner r = Some r1" "header_count r1 \<le> 32" by auto
  then show ?case using 4(3) by (cases v) (auto simp: js_res_send_def)
next
  case (5 own mem dup inner v r)
  then obtain r1 where "run_calls inner r = Some r1" "header_count r1 \<le> 32" by auto
  then show ?case using 5(3)
    by (cases v) (auto simp: js_res_json_def push_header_def max_headers_def Let_def split: option.splits)
next
  case (6 own mem inner1 v1 inner2 v2 r)
  then show ?case
    by (auto simp: js_res_set_def push_header_def max_headers_def split: option.splits)
qed simp

text \<open>
  C20. No script whose \<open>set\<close> arguments convert without calling back writes behind the 32 header
  slots, whatever it does otherwise and however deeply its other arguments call back.
\<close>

theorem response_headers_bounded:
  assumes "list_all set_plain cs"
  shows "\<exists>r. run_calls cs (hbf_qjs_create_response r0) = Some r \<and> header_count r \<le> 32"
  using plain_calls_safe(1) [OF assms, of "hbf_qjs_create_response r0"]
  by (simp add: hbf_qjs_create_response_def)

definition plain_set :: call where
  "plain_set = Call_set True True [] (Some ''k'') [] (Some ''v'')"

theorem response_headers_bounded_witness:
  "\<exists>r. run_calls (replicate 40 plain_set) (hbf_qjs_create_response
     \<lparr>status_code = 0, headers = [None], body = None, sent = True, lost = 0\<rparr>) = Some r \<and> header_count r \<le> 32"
  by (rule response_headers_bounded) (simp add: list_all_iff plain_set_def)

text \<open>A \<open>set\<close> that adds a header, whatever its name and value, and calls nothing back.\<close>

fun adds_header :: "call \<Rightarrow> bool" where
  "adds_header (Call_set own mem inner1 v1 inner2 v2) \<longleftrightarrow>
     own \<and> mem \<and> inner1 = [] \<and> inner2 = [] \<and> v1 \<noteq> None \<and> v2 \<noteq> None"
| "adds_header c \<longleftrightarrow> False"

lemma adds_header_run:
  "adds_header c \<Longrightarrow> header_count r \<le> 32 \<Longrightarrow>
     \<exists>x r'. run_call c r = Some (x, r') \<and> header_count r' = min 32 (header_count r + 1)"
  by (cases c) (auto simp: js_res_set_def push_header_def max_headers_def)

lemma adds_headers_run:
  "\<forall>c \<in> set cs. adds_header c \<Longrightarrow> header_count r \<le> 32 \<Longrightarrow>
     \<exists>r'. run_calls cs r = Some r' \<and> header_count r' = min 32 (header_count r + length cs)"
proof (induction cs arbitrary: r)
  case (Cons c cs)
  obtain x r1 where r1: "run_call c r = Some (x, r1)" "header_count r1 = min 32 (header_count r + 1)"
    using adds_header_run Cons.prems by fastforce
  then show ?case using Cons.IH [of r1] Cons.prems by auto
qed simp

lemma run_calls_append: "run_calls (cs @ ds) r = (case run_calls cs r of None \<Rightarrow> None | Some r' \<Rightarrow> run_calls ds r')"
  by (induction cs arbitrary: r) (auto split: option.splits)

text \<open>
  C40. The bound is checked before the conversions and not after. After fewer than 32 headers,
  a \<open>set\<close> whose name or value converts by calling \<open>set\<close> itself writes behind the array exactly
  when those inner calls, in whichever of the two conversions they are, bring the number of
  headers to 32: one inner call is enough in the last free slot.
\<close>

theorem reentrant_set_overflows:
  assumes "\<forall>c \<in> set (cs @ inner1 @ inner2). adds_header c" "length cs < 32"
  shows "run_calls (cs @ [Call_set True True inner1 (Some n) inner2 (Some v)]) (hbf_qjs_create_response r0) = None
     \<longleftrightarrow> 32 \<le> length cs + length inner1 + length inner2"
proof -
  obtain r where r: "run_calls cs (hbf_qjs_create_response r0) = Some r" "header_count r = length cs"
    using adds_headers_run [of cs "hbf_qjs_create_response r0"] assms by (auto simp: hbf_qjs_create_response_def)
  obtain r1 where r1: "run_calls inner1 r = Some r1" "header_count r1 = min 32 (length cs + length inner1)"
    using adds_headers_run [of inner1 r] assms r(2) by auto
  obtain r2 where r2: "run_calls inner2 r1 = Some r2" "header_count r2 = min 32 (header_count r1 + length inner2)"
    using adds_headers_run [of inner2 r1] assms(1) r1(2) by auto
  have "run_call (Call_set True True inner1 (Some n) inner2 (Some v)) r = None \<longleftrightarrow> 32 \<le> header_count r2"
    using r r1(1) r2(1) assms(2) by (simp add: js_res_set_def push_header_def max_headers_def)
  also have "\<dots> \<longleftrightarrow> 32 \<le> length cs + length inner1 + length inner2"
    using r1(2) r2(2) by (simp add: min_def)
  finally show ?thesis using r(1) by (auto simp: run_calls_append split: option.splits)
qed

theorem reentrant_set_overflows_witness:
  "run_calls (replicate 31 plain_set @ [Call_set True True [] (Some ''k'') [plain_set] (Some ''v'')])
     (hbf_qjs_create_response \<lparr>status_code = 0, headers = [None], body = None, sent = True, lost = 0\<rparr>) = None"
proof -
  have "\<forall>c \<in> set (replicate 31 plain_set @ [] @ [plain_set]). adds_header c"
    by (simp add: plain_set_def)
  then show ?thesis
    by (intro reentrant_set_overflows [THEN iffD2]) simp_all
qed

section \<open>The body\<close>

lemma sent_stays:
  "sent r \<Longrightarrow> run_calls cs r = Some r' \<Longrightarrow> sent r' \<and> body r' = body r \<and> lost r' = lost r"
  "sent r \<Longrightarrow> run_call c r = Some (x, r') \<Longrightarrow> sent r' \<and> body r' = body r \<and> lost r' = lost r"
proof (induction cs r and c r arbitrary: r' and x r' rule: run_calls_run_call.induct)
  case (2 c cs r)
  from 2(4) obtain x r1 where r1: "run_call c r = Some (x, r1)" "run_calls cs r1 = Some r'"
    by (auto split: option.splits)
  from 2(1) [OF 2(3) r1(1)] have "sent r1 \<and> body r1 = body r \<and> lost r1 = lost r" .
  with 2(2) [OF r1(1) refl _ r1(2)] show ?case by simp
next
  case (3 own inner v r)
  show ?case
  proof (cases own)
    case True
    then obtain r1 where r1: "run_calls inner r = Some r1"
      using 3(3) by (auto simp: js_res_status_def split: option.splits)
    then show ?thesis using 3(1) [OF 3(2) r1] 3(3) True
      by (cases v) (auto simp: js_res_status_def)
  qed (use 3(2,3) in \<open>simp add: js_res_status_def\<close>)
next
  case (4 own mem inner v r)
  from 4(2,3) show ?case by (simp add: js_res_send_def split: if_splits)
next
  case (5 own mem dup inner v r)
  from 5(2,3) show ?case by (simp add: js_res_json_def split: if_splits)
next
  case (6 own mem inner1 v1 inner2 v2 r)
  show ?case
  proof (cases "own \<and> header_count r < 32")
    case False
    then show ?thesis using 6(3,4) by (cases own) (simp_all add: js_res_set_def not_less)
  next
    case True
    then obtain r1 r2 where r1: "run_calls inner1 r = Some r1" and r2: "run_calls inner2 r1 = Some r2"
      using 6(4) by (auto simp: js_res_set_def split: option.splits)
    then have "sent r2 \<and> body r2 = body r \<and> lost r2 = lost r"
      using 6(1) [OF 6(3) r1] 6(2) [OF _ r2] by simp
    then show ?thesis using 6(4) True r1 r2
      by (auto simp: js_res_set_def push_header_def split: option.splits if_splits)
  qed
qed auto

text \<open>
  C34. Once a body has been stored, it is final: no later call of any method, however nested,
  changes the body, its length or the sent flag, or loses a buffer.
\<close>

theorem first_body_final:
  assumes "sent r" "run_calls cs r = Some r'"
  shows "body r' = body r \<and> sent r' \<and> body_len r' = body_len r \<and> lost r' = lost r"
  using sent_stays(1) [OF assms] by simp

theorem first_body_final_witness:
  "\<exists>r'. run_calls [Call_send True True [] (Some ''late''), plain_set]
       \<lparr>status_code = 200, headers = [], body = Some ''first'', sent = True, lost = 0\<rparr> = Some r' \<and>
     body r' = Some ''first''"
proof -
  let ?r = "\<lparr>status_code = 200, headers = [], body = Some ''first'', sent = True, lost = 0\<rparr>"
  obtain r' where run: "run_calls [Call_send True True [] (Some ''late''), plain_set] ?r = Some r'"
    by (simp add: js_res_send_def plain_set_def js_res_set_def push_header_def max_headers_def)
  show ?thesis using first_body_final [OF _ run] run by simp
qed

section \<open>The message\<close>

text \<open>Splitting a message at the first empty line: the header lines and the rest.\<close>

fun split_line :: "string \<Rightarrow> (string \<times> string) option" where
  "split_line (a # b # cs) =
     (if [a, b] = crlf then Some ([], cs) else map_option (\<lambda>(l, r). (a # l, r)) (split_line (b # cs)))"
| "split_line cs = None"

function split_head :: "string \<Rightarrow> (string list \<times> string) option" where
  "split_head cs =
     (case split_line cs of
        None \<Rightarrow> None
      | Some (l, r) \<Rightarrow>
          if l = [] \<or> length cs \<le> length r then Some ([], r)
          else map_option (\<lambda>(ls, b). (l # ls, b)) (split_head r))"
  by auto
termination by (relation "measure length") auto

declare split_head.simps [simp del]

definition line_free :: "string \<Rightarrow> bool" where
  "line_free s \<longleftrightarrow> CHR 0x0D \<notin> set s \<and> CHR 0x0A \<notin> set s"

lemma split_line_crlf: "CHR 0x0D \<notin> set l \<Longrightarrow> split_line (l @ crlf @ r) = Some (l, r)"
proof (induction l)
  case Nil
  show ?case by (simp add: crlf_def)
next
  case (Cons c l)
  then show ?case by (cases "l @ crlf @ r") (auto simp: crlf_def)
qed

lemma split_head_empty: "split_head (crlf @ r) = Some ([], r)"
  using split_line_crlf [of "[]" r] by (subst split_head.simps) simp

lemma split_head_line:
  "line_free l \<Longrightarrow> l \<noteq> [] \<Longrightarrow>
     split_head (l @ crlf @ r) = map_option (\<lambda>(ls, b). (l # ls, b)) (split_head r)"
  using split_line_crlf [of l r] by (subst split_head.simps) (simp add: line_free_def)

lemma split_head_lines:
  "\<forall>l \<in> set ls. line_free l \<and> l \<noteq> [] \<Longrightarrow>
     split_head (concat (map (\<lambda>l. l @ crlf) ls) @ r) = map_option (\<lambda>(ms, b). (ls @ ms, b)) (split_head r)"
proof (induction ls)
  case Nil
  show ?case by (cases "split_head r") auto
next
  case (Cons l ls)
  then show ?case by (cases "split_head r") (auto simp: split_head_line)
qed

lemma line_free_decimal: "line_free (decimal n)" "line_free (decimal_int i)"
proof -
  have d: "line_free (decimal n)" for n
  proof -
    have "digit_char d \<noteq> CHR 0x0D \<and> digit_char d \<noteq> CHR 0x0A" if "d < 10" for d
      using digit_value_digit_char [of d] that by (auto simp: digit_value_def Let_def)
    then show ?thesis using decimal_digits by (fastforce simp: line_free_def)
  qed
  then show "line_free (decimal n)" "line_free (decimal_int i)"
    by (auto simp: decimal_int_def line_free_def)
qed

text \<open>The text of a header slot.\<close>

definition header_line :: "string option \<Rightarrow> string" where
  "header_line h = (case h of None \<Rightarrow> ''(null)'' | Some t \<Rightarrow> t)"

lemma send_response_lines:
  "hbf_send_response r =
     concat (map (\<lambda>l. l @ crlf)
       ((''HTTP/1.1 '' @ decimal_int (status_code r) @ '' OK'') # map header_line (headers r) @
        [''Content-Length: '' @ decimal (body_len r)])) @ crlf @ (case body r of None \<Rightarrow> [] | Some b \<Rightarrow> b)"
proof -
  have "decimal 0 = ''0''" by (subst decimal.simps) (simp add: digit_char_def)
  then show ?thesis by (auto simp: hbf_send_response_def header_line_def o_def split: option.splits)
qed

text \<open>
  C19. A response whose header lines have no line break (and are not empty) is sent as one
  well-formed message: the head consists of the status line, the headers in the order they
  were set and the content length, and what follows the empty line is exactly the body, of
  the announced length.
\<close>

theorem response_well_framed:
  assumes "\<forall>h \<in> set (headers r). line_free (header_line h) \<and> header_line h \<noteq> []"
  shows "split_head (hbf_send_response r) =
     Some ((''HTTP/1.1 '' @ decimal_int (status_code r) @ '' OK'') # map header_line (headers r) @
             [''Content-Length: '' @ decimal (body_len r)],
           case body r of None \<Rightarrow> [] | Some b \<Rightarrow> b) \<and>
     undigits 10 (map (\<lambda>c. the (digit_value c)) (decimal (body_len r))) =
       length (case body r of None \<Rightarrow> [] | Some b \<Rightarrow> b)"
proof -
  let ?ls = "(''HTTP/1.1 '' @ decimal_int (status_code r) @ '' OK'') # map header_line (headers r) @
    [''Content-Length: '' @ decimal (body_len r)]"
  have "\<forall>l \<in> set ?ls. line_free l \<and> l \<noteq> []"
    using assms line_free_decimal(1) [of "body_len r"] line_free_decimal(2) [of "status_code r"]
    by (auto simp: line_free_def)
  from split_head_lines [OF this] show ?thesis
    by (simp only: send_response_lines split_head_empty) (simp add: decimal_read_back split: option.splits)
qed

theorem response_well_framed_witness:
  "split_head (hbf_send_response
     \<lparr>status_code = 404, headers = [Some ''X: y''], body = Some ''no'', sent = True, lost = 0\<rparr>) =
   Some ([''HTTP/1.1 '' @ decimal_int 404 @ '' OK'', ''X: y'', ''Content-Length: '' @ decimal (length ''no'')], ''no'')"
  using response_well_framed [of "\<lparr>status_code = 404, headers = [Some ''X: y''], body = Some ''no'',
      sent = True, lost = 0\<rparr>"]
  by (simp add: header_line_def line_free_def)

end
