(* ===== verification/Log.thy ===== *)
theory Log
  imports Cstd "HOL-Library.Monad_Syntax"
begin

text \<open>
  hbf/shell/log.c: levels, the current level and the lines on standard error. The time stamp
  is the environment's; the message is the formatted text.
\<close>

section \<open>Levels\<close>

datatype hbf_log_level = HBF_LOG_DEBUG | HBF_LOG_INFO | HBF_LOG_WARN | HBF_LOG_ERROR

fun level_num :: "hbf_log_level \<Rightarrow> nat" where
  "level_num HBF_LOG_DEBUG = 0"
| "level_num HBF_LOG_INFO = 1"
| "level_num HBF_LOG_WARN = 2"
| "level_num HBF_LOG_ERROR = 3"

instantiation hbf_log_level :: linorder
begin

definition less_eq_hbf_log_level :: "hbf_log_level \<Rightarrow> hbf_log_level \<Rightarrow> bool" where
  "less_eq_hbf_log_level a b \<longleftrightarrow> level_num a \<le> level_num b"

definition less_hbf_log_level :: "hbf_log_level \<Rightarrow> hbf_log_level \<Rightarrow> bool" where
  "less_hbf_log_level a b \<longleftrightarrow> level_num a < level_num b"

instance
proof
  show "a = b" if "a \<le> b" "b \<le> a" for a b :: hbf_log_level
    using that by (cases a; cases b) (simp_all add: less_eq_hbf_log_level_def)
qed (auto simp: less_eq_hbf_log_level_def less_hbf_log_level_def)

end

lemmas level_order = less_eq_hbf_log_level_def less_hbf_log_level_def

definition level_names :: "string list" where
  "level_names = [''DEBUG'', ''INFO'', ''WARN'', ''ERROR'']"

section \<open>State\<close>

record log_state =
  current_level :: hbf_log_level
  stderr :: "string list"

definition log_start :: log_state where
  "log_start = \<lparr>current_level = HBF_LOG_INFO, stderr = []\<rparr>"

definition hbf_log_init :: "hbf_log_level \<Rightarrow> log_state \<Rightarrow> log_state" where
  "hbf_log_init l s = s\<lparr>current_level := l\<rparr>"

definition hbf_log_set_level :: "hbf_log_level \<Rightarrow> log_state \<Rightarrow> log_state" where
  "hbf_log_set_level l s = s\<lparr>current_level := l\<rparr>"

definition hbf_log_get_level :: "log_state \<Rightarrow> hbf_log_level" where
  "hbf_log_get_level s = current_level s"

definition log_line :: "string \<Rightarrow> hbf_log_level \<Rightarrow> string \<Rightarrow> string" where
  "log_line timestamp l msg =
     ''['' @ timestamp @ ''] ['' @ level_names ! level_num l @ ''] '' @ msg @ [CHR 0x0A]"

definition hbf_log :: "string \<Rightarrow> hbf_log_level \<Rightarrow> string \<Rightarrow> log_state \<Rightarrow> log_state" where
  "hbf_log timestamp l msg s =
     (if l < current_level s then s else s\<lparr>stderr := stderr s @ [log_line timestamp l msg]\<rparr>)"

section \<open>Parsing a level\<close>

text \<open>\<open>strcmp(buf, lit)\<close> on an array of characters that may hold no NUL; \<open>None\<close> is a read behind
  its end.\<close>

fun strcmp_buf :: "string \<Rightarrow> string \<Rightarrow> int option" where
  "strcmp_buf [] lit = None"
| "strcmp_buf (c # cs) [] = Some (of_char c)"
| "strcmp_buf (c # cs) (l # ls) = (if c = l then strcmp_buf cs ls else Some (of_char c - of_char l))"

definition hbf_log_parse_level :: "string option \<Rightarrow> hbf_log_level option" where
  "hbf_log_parse_level level_str =
     (case level_str of
        None \<Rightarrow> Some HBF_LOG_INFO
      | Some buf \<Rightarrow> do {
          d \<leftarrow> strcmp_buf buf ''debug'';
          if d = 0 then Some HBF_LOG_DEBUG else do {
            i \<leftarrow> strcmp_buf buf ''info'';
            if i = 0 then Some HBF_LOG_INFO else do {
              w \<leftarrow> strcmp_buf buf ''warn'';
              if w = 0 then Some HBF_LOG_WARN else do {
                e \<leftarrow> strcmp_buf buf ''error'';
                if e = 0 then Some HBF_LOG_ERROR else Some HBF_LOG_INFO
              }
            }
          }
        })"

lemma strcmp_buf_long:
  "length lit < length buf \<Longrightarrow> strcmp_buf buf lit \<noteq> None"
  by (induction buf lit rule: strcmp_buf.induct) auto

text \<open>On a buffer whose content is a string and a NUL, or a string longer than the literal, the
  comparison is the one of the strings.\<close>

lemma strcmp_buf_string:
  "nul_free lit \<Longrightarrow> nul_free s \<Longrightarrow> strcmp_buf (s @ CHR 0x00 # rest) lit = Some d \<Longrightarrow> d = 0 \<longleftrightarrow> s = lit"
proof (induction "s @ CHR 0x00 # rest" lit arbitrary: s rule: strcmp_buf.induct)
  case (2 c cs)
  show ?case using 2 of_char_int_zero_iff [of c] by (cases s) (auto simp: nul_free_def)
next
  case (3 c cs l ls)
  have diff: "(of_char c :: int) \<noteq> of_char l" if "c \<noteq> l"
  proof -
    have "(of_char c :: int) = of_char l \<longleftrightarrow> c = l" by (simp only: of_char_eq_iff)
    with that show ?thesis by simp
  qed
  show ?case
  proof (cases s)
    case Nil
    with 3 show ?thesis using diff by (auto simp: nul_free_def split: if_splits)
  next
    case (Cons x xs)
    with 3 show ?thesis using diff by (auto simp: nul_free_def split: if_splits)
  qed
qed simp

end
