(* ===== verification/Config.thy ===== *)
theory Config
  imports Log
begin

text \<open>
  hbf/shell/config.c: the command line. \<open>log_level\<close> is the \<open>char[16]\<close> of the structure; its last
  character is never written, so a level name of 15 characters or more has no NUL behind it.
  The structure is a local variable of \<open>main\<close> with arbitrary contents.
\<close>

section \<open>The code\<close>

record hbf_config =
  port :: int
  log_level :: string
  inmem :: int

definition config_defaults :: "hbf_config \<Rightarrow> hbf_config" where
  "config_defaults c = c\<lparr>port := 5309, log_level := strncpy_buf (log_level c) ''info'' 15, inmem := 0\<rparr>"

text \<open>The loop over \<open>argv[1..]\<close>: the return code and the structure.\<close>

fun parse_options :: "string list \<Rightarrow> hbf_config \<Rightarrow> int \<times> hbf_config" where
  "parse_options [] c = (0, c)"
| "parse_options (a # as) c =
     (if strcmp a ''--help'' = 0 \<or> strcmp a ''-h'' = 0 then (1, c)
      else if strcmp a ''--port'' = 0 then
        (case as of
           [] \<Rightarrow> (-1, c)
         | v # vs \<Rightarrow>
             (let (port_val, end) = strtol v
              in if end \<noteq> [] \<or> port_val \<le> 0 \<or> port_val > 65535 then (-1, c)
                 else parse_options vs (c\<lparr>port := port_val\<rparr>)))
      else if strcmp a ''--log-level'' = 0 then
        (case as of
           [] \<Rightarrow> (-1, c)
         | v # vs \<Rightarrow> parse_options vs (c\<lparr>log_level := strncpy_buf (log_level c) v 15\<rparr>))
      else if strcmp a ''--inmem'' = 0 then parse_options as (c\<lparr>inmem := 1\<rparr>)
      else (-1, c))"

definition hbf_config_parse :: "string list \<Rightarrow> hbf_config option \<Rightarrow> int \<times> hbf_config option" where
  "hbf_config_parse argv config =
     (case config of
        None \<Rightarrow> (-1, None)
      | Some c \<Rightarrow> (case parse_options (tl argv) (config_defaults c) of (ret, c') \<Rightarrow> (ret, Some c')))"

section \<open>Properties\<close>

text \<open>A buffer of 16 characters that holds the first 15 of a string, padded with NULs.\<close>

definition holds :: "string \<Rightarrow> string \<Rightarrow> bool" where
  "holds buf v \<longleftrightarrow> length buf = 16 \<and> take 15 buf = take 15 v @ replicate (15 - length v) (CHR 0x00)"

lemma holds_strncpy: "length buf = 16 \<Longrightarrow> holds (strncpy_buf buf v 15) v"
  by (auto simp: holds_def strncpy_buf_def min_def)

definition good_config :: "hbf_config \<Rightarrow> bool" where
  "good_config c \<longleftrightarrow> 1 \<le> port c \<and> port c \<le> 65535 \<and> inmem c \<in> {0, 1} \<and>
     (\<exists>v. nul_free v \<and> holds (log_level c) v)"

lemma parse_options_good:
  "good_config c \<Longrightarrow> \<forall>a \<in> set as. nul_free a \<Longrightarrow> parse_options as c = (r, c') \<Longrightarrow>
     good_config c' \<and> r \<in> {0, 1, -1}"
proof (induction as c rule: parse_options.induct)
  case (2 a as c)
  have nf: "nul_free a" using "2.prems"(2) by simp
  have len: "length (log_level c) = 16" using "2.prems"(1) by (auto simp: good_config_def holds_def)
  consider (usage) "strcmp a ''--help'' = 0 \<or> strcmp a ''-h'' = 0"
    | (port) "\<not> (strcmp a ''--help'' = 0 \<or> strcmp a ''-h'' = 0)" "strcmp a ''--port'' = 0"
    | (lev) "\<not> (strcmp a ''--help'' = 0 \<or> strcmp a ''-h'' = 0)" "strcmp a ''--port'' \<noteq> 0" "strcmp a ''--log-level'' = 0"
    | (inmem) "\<not> (strcmp a ''--help'' = 0 \<or> strcmp a ''-h'' = 0)" "strcmp a ''--port'' \<noteq> 0"
        "strcmp a ''--log-level'' \<noteq> 0" "strcmp a ''--inmem'' = 0"
    | (bad) "\<not> (strcmp a ''--help'' = 0 \<or> strcmp a ''-h'' = 0)" "strcmp a ''--port'' \<noteq> 0"
        "strcmp a ''--log-level'' \<noteq> 0" "strcmp a ''--inmem'' \<noteq> 0" by blast
  then show ?case
  proof cases
    case usage
    then show ?thesis using "2.prems"(1,3) by simp
  next
    case port
    show ?thesis
    proof (cases as)
      case Nil
      then show ?thesis using "2.prems"(1,3) port by simp
    next
      case (Cons v vs)
      obtain n e where sv: "strtol v = (n, e)" by (cases "strtol v")
      show ?thesis
      proof (cases "e \<noteq> [] \<or> n \<le> 0 \<or> n > 65535")
        case True
        then show ?thesis using "2.prems"(1,3) port Cons sv by simp
      next
        case False
        have "good_config (c\<lparr>port := n\<rparr>)" using "2.prems"(1) False by (simp add: good_config_def)
        moreover have "parse_options vs (c\<lparr>port := n\<rparr>) = (r, c')" using "2.prems"(3) port Cons sv False by simp
        ultimately show ?thesis
          using "2.IH"(1) [OF port Cons sv [symmetric] refl False] "2.prems"(2) Cons by simp
      qed
    qed
  next
    case lev
    show ?thesis
    proof (cases as)
      case Nil
      then show ?thesis using "2.prems"(1,3) lev by simp
    next
      case (Cons v vs)
      have "nul_free v" using "2.prems"(2) Cons by simp
      then have "good_config (c\<lparr>log_level := strncpy_buf (log_level c) v 15\<rparr>)"
        using "2.prems"(1) holds_strncpy [OF len, of v] by (auto simp: good_config_def)
      then show ?thesis
        using "2.IH"(2) [OF lev Cons] "2.prems"(2,3) lev Cons by simp
    qed
  next
    case inmem
    have "good_config (c\<lparr>inmem := 1\<rparr>)" using "2.prems"(1) by (simp add: good_config_def)
    then show ?thesis using "2.IH"(3) [OF inmem] "2.prems"(2,3) inmem by simp
  next
    case bad
    then show ?thesis using "2.prems"(1,3) by simp
  qed
qed simp

lemma defaults_good: "length (log_level c) = 16 \<Longrightarrow> good_config (config_defaults c)"
  using holds_strncpy [of "log_level c" "''info''"]
  by (auto simp: good_config_def config_defaults_def nul_free_def intro: exI [of _ "''info''"])

text \<open>Comparing with a name of at most five letters never leaves the buffer.\<close>

lemma parse_level_holds:
  assumes "holds buf v" "nul_free v"
  shows "hbf_log_parse_level (Some buf) =
    Some (if v = ''debug'' then HBF_LOG_DEBUG else if v = ''warn'' then HBF_LOG_WARN
          else if v = ''error'' then HBF_LOG_ERROR else HBF_LOG_INFO)"
proof -
  have cmp: "\<exists>d. strcmp_buf buf lit = Some d \<and> (d = 0 \<longleftrightarrow> v = lit)"
    if lit: "length lit \<le> 5" "nul_free lit" for lit
  proof -
    have len: "length buf = 16" using assms(1) by (simp add: holds_def)
    obtain d where d: "strcmp_buf buf lit = Some d" using strcmp_buf_long [of lit buf] lit(1) len by auto
    have "d = 0 \<longleftrightarrow> v = lit"
    proof (cases "length v < 15")
      case True
      then have "take 15 buf = v @ CHR 0x00 # replicate (14 - length v) (CHR 0x00)"
        using assms(1) by (simp add: holds_def Suc_diff_le [symmetric] flip: replicate_Suc)
      then have "buf = v @ CHR 0x00 # replicate (14 - length v) (CHR 0x00) @ drop 15 buf"
        by (metis append_Cons append_assoc append_take_drop_id)
      then show ?thesis using strcmp_buf_string [OF lit(2) assms(2)] d by metis
    next
      case False
      have pre: "take 15 buf = take 15 v" using assms(1) False by (simp add: holds_def)
      have eq: "strcmp_buf buf lit = Some 0 \<longrightarrow> take (Suc (length lit)) buf = lit @ [CHR 0x00]"
        if "length lit < length buf" for buf lit
        using that by (induction buf lit rule: strcmp_buf.induct) (auto simp: of_char_int_zero_iff split: if_splits)
      have "d \<noteq> 0"
      proof
        assume "d = 0"
        then have "take (Suc (length lit)) buf = lit @ [CHR 0x00]" using eq [of lit buf] d lit(1) len by simp
        then have "CHR 0x00 \<in> set (take (Suc (length lit)) (take 15 buf))" using lit(1) by (simp add: min_def)
        then have "CHR 0x00 \<in> set v" using pre by (auto dest: in_set_takeD)
        with assms(2) show False by (simp add: nul_free_def)
      qed
      then show ?thesis using False lit(1) by auto
    qed
    with d show ?thesis by blast
  qed
  obtain a where a: "strcmp_buf buf ''debug'' = Some a" "a = 0 \<longleftrightarrow> v = ''debug''"
    using cmp [of "''debug''"] by (auto simp: nul_free_def)
  obtain b where b: "strcmp_buf buf ''info'' = Some b" "b = 0 \<longleftrightarrow> v = ''info''"
    using cmp [of "''info''"] by (auto simp: nul_free_def)
  obtain c where c: "strcmp_buf buf ''warn'' = Some c" "c = 0 \<longleftrightarrow> v = ''warn''"
    using cmp [of "''warn''"] by (auto simp: nul_free_def)
  obtain e where e: "strcmp_buf buf ''error'' = Some e" "e = 0 \<longleftrightarrow> v = ''error''"
    using cmp [of "''error''"] by (auto simp: nul_free_def)
  show ?thesis
    using a(2) b(2) c(2) e(2)
    by (simp add: hbf_log_parse_level_def a(1) b(1) c(1) e(1))
qed

text \<open>\<open>strtol\<close> reads a printed number back.\<close>

lemma digit_char_facts:
  "d < 10 \<Longrightarrow> is_digit (digit_char d) \<and> \<not> is_space (digit_char d) \<and> digit_char d \<noteq> CHR ''-'' \<and>
     digit_char d \<noteq> CHR ''+'' \<and> digit_char d \<noteq> CHR 0x00 \<and> of_char (digit_char d) - 48 = d"
proof -
  assume "d < 10"
  then have "d \<in> set [0..<10]" by simp
  moreover have "\<forall>d \<in> set [0..<10]. is_digit (digit_char d) \<and> \<not> is_space (digit_char d) \<and> digit_char d \<noteq> CHR ''-'' \<and>
     digit_char d \<noteq> CHR ''+'' \<and> digit_char d \<noteq> CHR 0x00 \<and> of_char (digit_char d) - 48 = d"
    by (simp add: is_digit_def is_space_def digit_char_def upt_rec)
  ultimately show ?thesis by blast
qed

lemma decimal_chars:
  "\<forall>c \<in> set (decimal n). is_digit c \<and> \<not> is_space c \<and> c \<noteq> CHR ''-'' \<and> c \<noteq> CHR ''+'' \<and> c \<noteq> CHR 0x00 \<and>
     of_char c - 48 = the (digit_value c)"
  using decimal_digits [of _ n] digit_char_facts digit_value_digit_char by fastforce

lemma strtol_decimal:
  assumes "n < 2 ^ 63"
  shows "strtol (decimal n) = (int n, [])"
proof -
  have hd: "\<exists>c cs. decimal n = c # cs \<and> \<not> is_space c \<and> c \<noteq> CHR ''-'' \<and> c \<noteq> CHR ''+''"
    using decimal_chars [of n] by (cases "decimal n") auto
  then have sp: "dropWhile is_space (decimal n) = decimal n" by auto
  have dig: "takeWhile is_digit (decimal n) = decimal n" "dropWhile is_digit (decimal n) = []"
    using decimal_chars [of n] by (simp_all add: takeWhile_eq_all_conv dropWhile_eq_Nil_conv)
  have "undigits 10 (map (\<lambda>c. of_char c - 48) (decimal n)) = n"
  proof -
    have "map (\<lambda>c. of_char c - 48) (decimal n) = map (\<lambda>c. the (digit_value c)) (decimal n)"
      using decimal_chars [of n] by (intro map_cong) auto
    then show ?thesis by (simp only: decimal_read_back)
  qed
  moreover have "max (- (2 ^ 63)) (min (2 ^ 63 - 1) (int n)) = int n" using assms by simp
  moreover have "(case decimal n of [] \<Rightarrow> False | c # cs \<Rightarrow> c = CHR ''-'') = False"
    "(case decimal n of [] \<Rightarrow> decimal n
      | c # cs \<Rightarrow> if c = CHR ''-'' \<or> c = CHR ''+'' then cs else decimal n) = decimal n"
    using hd by auto
  ultimately show ?thesis
    by (simp only: strtol_def Let_def sp dig decimal_not_Nil if_False)
qed

lemma config_parse_result:
  assumes "\<forall>a \<in> set argv. nul_free a" "length (log_level c) = 16"
    and "hbf_config_parse argv (Some c) = (r, Some c')"
  shows "r \<in> {0, 1, -1} \<and> 1 \<le> port c' \<and> port c' \<le> 65535 \<and> inmem c' \<in> {0, 1} \<and>
     length (log_level c') = 16 \<and> hbf_log_parse_level (Some (log_level c')) \<noteq> None"
proof -
  have "good_config (config_defaults c)" using assms(2) by (rule defaults_good)
  moreover have "parse_options (tl argv) (config_defaults c) = (r, c')"
    using assms(3) by (auto simp: hbf_config_parse_def split: prod.splits)
  moreover have "\<forall>a \<in> set (tl argv). nul_free a" using assms(1) by (cases argv) auto
  ultimately have "good_config c' \<and> r \<in> {0, 1, -1}" using parse_options_good by blast
  then show ?thesis using parse_level_holds by (auto simp: good_config_def holds_def)
qed

text \<open>
  C33. Whatever the arguments are, \<open>hbf_config_parse\<close> leaves a port from 1 to 65535 and an
  \<open>inmem\<close> flag of 0 or 1, returns 0, 1 or -1, and leaves a level name that
  \<open>hbf_log_parse_level\<close> reads without leaving its 16 characters, although a long name has no
  terminating NUL there.
\<close>

theorem config_parse_safe:
  assumes "\<forall>a \<in> set argv. nul_free a" "length (log_level c) = 16"
    and "hbf_config_parse argv (Some c) = (r, Some c')"
  shows "r \<in> {0, 1, -1} \<and> 1 \<le> port c' \<and> port c' \<le> 65535 \<and> inmem c' \<in> {0, 1} \<and>
     length (log_level c') = 16 \<and> hbf_log_parse_level (Some (log_level c')) \<noteq> None"
  by (rule config_parse_result [OF assms])

definition garbage_config :: hbf_config where
  "garbage_config = \<lparr>port = -7, log_level = replicate 16 (CHR ''x''), inmem = 99\<rparr>"

theorem config_parse_safe_witness:
  "\<exists>c'. hbf_config_parse [''hbf'', ''--log-level'', ''a-name-of-more-than-15''] (Some garbage_config) = (0, Some c') \<and>
     hbf_log_parse_level (Some (log_level c')) \<noteq> None"
proof -
  obtain c' where run: "hbf_config_parse [''hbf'', ''--log-level'', ''a-name-of-more-than-15''] (Some garbage_config) =
      (0, Some c')"
    by (simp add: hbf_config_parse_def)
  have "\<forall>a \<in> set [''hbf'', ''--log-level'', ''a-name-of-more-than-15'']. nul_free a" by (simp add: nul_free_def)
  from config_parse_safe [OF this _ run] have "hbf_log_parse_level (Some (log_level c')) \<noteq> None"
    by (simp add: garbage_config_def)
  with run show ?thesis by blast
qed

text \<open>
  The documented options do what they say: a decimal port from 1 to 65535, a level name
  and \<open>--inmem\<close> are all taken over, and the name selects its level.
\<close>

lemma config_parse_options:
  assumes "1 \<le> n" "n \<le> 65535" "v \<in> {''debug'', ''info'', ''warn'', ''error''}" "length (log_level c) = 16"
  shows "\<exists>c'. hbf_config_parse [prog, ''--port'', decimal n, ''--log-level'', v, ''--inmem''] (Some c) = (0, Some c') \<and>
     port c' = int n \<and> inmem c' = 1 \<and>
     hbf_log_parse_level (Some (log_level c')) =
       Some (if v = ''debug'' then HBF_LOG_DEBUG else if v = ''warn'' then HBF_LOG_WARN
             else if v = ''error'' then HBF_LOG_ERROR else HBF_LOG_INFO)"
proof -
  have v: "nul_free v" using assms(3) by (auto simp: nul_free_def)
  let ?c = "config_defaults c\<lparr>port := int n,
    log_level := strncpy_buf (log_level (config_defaults c)) v 15, inmem := 1\<rparr>"
  have "length (log_level (config_defaults c)) = 16"
    using assms(4) by (simp add: config_defaults_def length_strncpy_buf)
  then have "holds (log_level ?c) v" using holds_strncpy by simp
  note lev = parse_level_holds [OF this v]
  have "hbf_config_parse [prog, ''--port'', decimal n, ''--log-level'', v, ''--inmem''] (Some c) = (0, Some ?c)"
    using assms(1,2) by (simp add: hbf_config_parse_def strtol_decimal)
  with lev show ?thesis by (intro exI [of _ ?c]) simp
qed

lemma config_parse_options_witness:
  "\<exists>c'. hbf_config_parse [''hbf'', ''--port'', decimal 8080, ''--log-level'', ''warn'', ''--inmem'']
      (Some garbage_config) = (0, Some c') \<and> port c' = 8080 \<and>
     hbf_log_parse_level (Some (log_level c')) = Some HBF_LOG_WARN"
  using config_parse_options [of 8080 "''warn''" garbage_config "''hbf''"]
  by (auto simp: garbage_config_def)

end
