(* ===== verification/Module_Loader.thy ===== *)
theory Module_Loader
  imports Store_Props
begin

text \<open>
  hbf/qjs/module_loader.c: resolving the name of an ES module and fetching its source from the
  versioned file system. The 512-byte buffer is explicit: a \<open>memcpy\<close> or a store outside it is
  the outcome \<open>None\<close> of \<open>hbf_qjs_module_normalize\<close>; the inner option is the returned pointer.
\<close>

section \<open>The code\<close>

text \<open>\<open>sqlite3_column_text\<close> and \<open>strdup\<close> can both fail; the copy ends at the first NUL.\<close>

definition hbf_qjs_get_module_source :: "env \<Rightarrow> sqlite3_ptr \<Rightarrow> string option \<Rightarrow> string option dbm" where
  "hbf_qjs_get_module_source E db module_path =
     (case (db, module_path) of
        (Main_db, Some p) \<Rightarrow> do {
          ok \<leftarrow> sq_prepare E [''latest_files''];
          if \<not> ok then ret None
          else do {
            bound \<leftarrow> sq_bind E;
            if \<not> bound then ret None
            else do {
              r \<leftarrow> sq_select E (select_latest_by_view p);
              (case r of
                 Step_Row data \<Rightarrow> do {
                   txt \<leftarrow> c_malloc E;
                   if \<not> txt then ret None
                   else do {
                     dup \<leftarrow> c_malloc E;
                     ret (if dup then Some (c_string (map char_of_byte data)) else None)
                   }
                 }
               | _ \<Rightarrow> ret None)
            }
          }
        }
      | _ \<Rightarrow> ret None)"

text \<open>The last slash: the loop over \<open>base_name\<close>.\<close>

fun last_slash :: "nat \<Rightarrow> string \<Rightarrow> nat option \<Rightarrow> nat option" where
  "last_slash i [] acc = acc"
| "last_slash i (c # cs) acc = last_slash (Suc i) cs (if c = CHR ''/'' then Some i else acc)"

definition memcpy_buf :: "string \<Rightarrow> nat \<Rightarrow> string \<Rightarrow> string option" where
  "memcpy_buf buf off src =
     (if off + length src \<le> length buf
      then Some (take off buf @ src @ drop (off + length src) buf) else None)"

text \<open>\<open>buffer\<close> is the local array with arbitrary contents, \<open>dup\<close> whether \<open>js_strdup\<close> succeeds.\<close>

definition hbf_qjs_module_normalize ::
    "string \<Rightarrow> bool \<Rightarrow> string option \<Rightarrow> string \<Rightarrow> string option option" where
  "hbf_qjs_module_normalize buffer dup base_name module_name =
     (let js_strdup = (\<lambda>s. if dup then Some s else None)
      in if take 2 module_name = ''./'' then
           (case base_name of
              None \<Rightarrow> Some (js_strdup (drop 2 module_name))
            | Some base \<Rightarrow>
                (case last_slash 0 base None of
                   None \<Rightarrow> Some (js_strdup (drop 2 module_name))
                 | Some dir_len \<Rightarrow>
                     if dir_len \<ge> 512 - 1 then Some None
                     else do {
                       b1 \<leftarrow> memcpy_buf buffer 0 (take dir_len base);
                       b2 \<leftarrow> memcpy_buf b1 dir_len ''/'';
                       (let rel = drop 2 module_name; rel_len = length rel
                        in if dir_len + 1 + rel_len \<ge> 512 then Some None
                           else do {
                             b3 \<leftarrow> memcpy_buf b2 (dir_len + 1) rel;
                             b4 \<leftarrow> memcpy_buf b3 (dir_len + 1 + rel_len) [CHR 0x00];
                             Some (js_strdup (c_string b4))
                           })
                     }))
         else Some (js_strdup module_name))"

text \<open>The loader: \<open>compile\<close> is \<open>JS_Eval\<close> with the compile-only flag, the pointer of the module or
  an exception; on a missing source a \<open>ReferenceError\<close> is thrown.\<close>

definition hbf_qjs_module_loader ::
    "env \<Rightarrow> (string \<Rightarrow> string \<Rightarrow> 'm option) \<Rightarrow> sqlite3_ptr \<Rightarrow> string \<Rightarrow> 'm option dbm" where
  "hbf_qjs_module_loader E compile db module_name =
     (case db of
        Null_db \<Rightarrow> ret None
      | Main_db \<Rightarrow> do {
          src \<leftarrow> hbf_qjs_get_module_source E db (Some module_name);
          ret (case src of None \<Rightarrow> None | Some code \<Rightarrow> compile code module_name)
        })"

text \<open>The database the loader of a new runtime gets; \<open>None\<close>: there is no runtime and no loader.\<close>

definition hbf_qjs_module_loader_init :: "bool \<Rightarrow> sqlite3_ptr \<Rightarrow> sqlite3_ptr option" where
  "hbf_qjs_module_loader_init rt d = (if \<not> rt then None else Some d)"

section \<open>Properties\<close>

lemma last_slash_append:
  "last_slash i (xs @ ys) acc = last_slash (i + length xs) ys (last_slash i xs acc)"
  by (induction i xs acc rule: last_slash.induct) simp_all

lemma last_slash_none: "CHR ''/'' \<notin> set xs \<Longrightarrow> last_slash i xs acc = acc"
  by (induction i xs acc rule: last_slash.induct) auto

lemma last_slash_dir: "CHR ''/'' \<notin> set name \<Longrightarrow> last_slash 0 (dir @ CHR ''/'' # name) None = Some (length dir)"
  using last_slash_append [of 0 dir "CHR ''/'' # name" None] by (simp add: last_slash_none)

lemma last_slash_Some:
  "last_slash 0 base None = Some n \<Longrightarrow> \<exists>name. base = take n base @ CHR ''/'' # name \<and> n < length base"
proof (cases "CHR ''/'' \<in> set base")
  case True
  assume n: "last_slash 0 base None = Some n"
  obtain dir name where "base = dir @ CHR ''/'' # name" "CHR ''/'' \<notin> set name"
    using split_list_last [OF True] by blast
  then show ?thesis using n last_slash_dir by auto
next
  case False
  assume "last_slash 0 base None = Some n"
  with last_slash_none [OF False] show ?thesis by simp
qed

text \<open>
  C30. Resolving a module name never leaves the 512-byte buffer, and its result is one of three.
  A name without a leading "./" is kept as it is, "../" included and whatever its length. A
  leading "./" is removed when there is no importing module or its name has no slash, again
  whatever the length. Otherwise it is replaced by the importing module's name up to its last
  slash, and there, and only there, a result of more than 511 characters is refused. A failed
  allocation of the copy gives NULL in every case.
\<close>

theorem module_normalize_spec:
  assumes "length buffer = 512" "nul_free m" "\<forall>b. base = Some b \<longrightarrow> nul_free b"
  shows "((\<forall>rest. m \<noteq> ''./'' @ rest) \<longrightarrow>
      hbf_qjs_module_normalize buffer dup base m = Some (if dup then Some m else None)) \<and>
    (\<forall>rest. m = ''./'' @ rest \<and> (\<forall>b. base = Some b \<longrightarrow> CHR ''/'' \<notin> set b) \<longrightarrow>
      hbf_qjs_module_normalize buffer dup base m = Some (if dup then Some rest else None)) \<and>
    (\<forall>rest dir name. m = ''./'' @ rest \<and> base = Some (dir @ ''/'' @ name) \<and> CHR ''/'' \<notin> set name \<longrightarrow>
      hbf_qjs_module_normalize buffer dup base m =
        Some (if dup \<and> length (dir @ ''/'' @ rest) \<le> 511 then Some (dir @ ''/'' @ rest) else None))"
proof (intro conjI allI impI)
  assume "\<forall>rest. m \<noteq> ''./'' @ rest"
  then have "take 2 m \<noteq> ''./''" by (metis append_take_drop_id)
  then show "hbf_qjs_module_normalize buffer dup base m = Some (if dup then Some m else None)"
    by (simp add: hbf_qjs_module_normalize_def Let_def)
next
  fix rest assume "m = ''./'' @ rest \<and> (\<forall>b. base = Some b \<longrightarrow> CHR ''/'' \<notin> set b)"
  then show "hbf_qjs_module_normalize buffer dup base m = Some (if dup then Some rest else None)"
    by (cases base) (simp_all add: hbf_qjs_module_normalize_def last_slash_none)
next
  fix rest dir name
  assume at: "m = ''./'' @ rest \<and> base = Some (dir @ ''/'' @ name) \<and> CHR ''/'' \<notin> set name"
  then have slash: "last_slash 0 (dir @ ''/'' @ name) None = Some (length dir)"
    using last_slash_dir by simp
  have "nul_free (dir @ ''/'' @ rest)" using assms(2,3) at by (auto simp: nul_free_def)
  then have "takeWhile (\<lambda>c. c \<noteq> CHR 0x00) ((dir @ ''/'' @ rest) @ CHR 0x00 # cs) = dir @ ''/'' @ rest" for cs
    by (subst takeWhile_append2) (auto simp: nul_free_def)
  then have str: "c_string (dir @ CHR ''/'' # rest @ CHR 0x00 # cs) = dir @ ''/'' @ rest" for cs
    by (simp add: c_string_def)
  show "hbf_qjs_module_normalize buffer dup base m =
      Some (if dup \<and> length (dir @ ''/'' @ rest) \<le> 511 then Some (dir @ ''/'' @ rest) else None)"
  proof (cases "length (dir @ ''/'' @ rest) \<le> 511")
    case True
    then show ?thesis using at slash assms(1) str
      by (simp add: hbf_qjs_module_normalize_def memcpy_buf_def Let_def)
  next
    case False
    then show ?thesis using at slash assms(1)
      by (auto simp: hbf_qjs_module_normalize_def memcpy_buf_def Let_def)
  qed
qed

theorem module_normalize_spec_witness:
  "hbf_qjs_module_normalize (replicate 512 (CHR ''?'')) True (Some ''hbf/server.js'') ''./lib/router.js'' =
     Some (Some ''hbf/lib/router.js'')"
proof -
  let ?buf = "replicate 512 (CHR ''?'')" and ?base = "''hbf'' @ ''/'' @ ''server.js''"
  have "hbf_qjs_module_normalize ?buf True (Some ?base) (''./'' @ ''lib/router.js'') =
      Some (if True \<and> length (''hbf'' @ ''/'' @ ''lib/router.js'') \<le> 511
        then Some (''hbf'' @ ''/'' @ ''lib/router.js'') else None)"
    by (intro module_normalize_spec [THEN conjunct2, THEN conjunct2, THEN spec [of _ "''lib/router.js''"],
          THEN spec [of _ "''hbf''"], THEN spec [of _ "''server.js''"], THEN mp])
       (simp_all add: nul_free_def)
  then show ?thesis by simp
qed

text \<open>
  C31. A module's source is the last version of the file with its name, up to the first NUL
  byte: where no call fails, the loader compiles exactly that, and in every environment it
  compiles that or nothing.
\<close>

theorem module_source_latest:
  assumes "wf (tabs s)" "calm E s"
    and "run_state (hbf_qjs_module_loader E compile Main_db name) s = (r, s')"
  shows "(r = None \<or> history (tabs s) name \<noteq> [] \<and>
       r = compile (c_string (map char_of_byte (last (history (tabs s) name)))) name) \<and>
    tabs s' = tabs s \<and>
    (healthy E s \<longrightarrow> r = (if history (tabs s) name = [] then None
       else compile (c_string (map char_of_byte (last (history (tabs s) name)))) name))"
  using assms(3) assms(2) latest_by_view_history [OF assms(1), of name] healthyD [of E s]
  by (auto simp: hbf_qjs_module_loader_def hbf_qjs_get_module_source_def sq_bind_def
      split: if_splits option.splits)

theorem module_source_latest_witness:
  "fst (run_state (hbf_qjs_module_loader quiet_env (\<lambda>src name. Some src) Main_db ''a.js'') fresh_conn) = None"
proof -
  obtain r s' where run: "run_state (hbf_qjs_module_loader quiet_env (\<lambda>src name. Some src) Main_db ''a.js'') fresh_conn =
      (r, s')" by (rule prod.exhaust)
  then show ?thesis using module_source_latest [OF _ _ run] by simp
qed

end
