(* ===== verification/Console.thy ===== *)
theory Console
  imports Log
begin

text \<open>
  hbf/qjs/console_module.c: \<open>console.log\<close>, \<open>warn\<close>, \<open>error\<close> and \<open>debug\<close>. \<open>concat_args\<close> converts
  every argument twice, once to add up the lengths and once to copy. A conversion runs
  JavaScript, so the two can differ; they are two separate inputs of the model: for every
  argument the C string of \<open>JS_ToCString\<close>, or \<open>None\<close> for NULL. An outcome \<open>None\<close> is undefined
  behaviour: a write behind the buffer, or \<open>strlen(NULL)\<close> after a failed \<open>malloc\<close>.
\<close>

section \<open>The code\<close>

definition js_value_to_string :: "bool \<Rightarrow> string option \<Rightarrow> string option" where
  "js_value_to_string mem str =
     (case str of
        None \<Rightarrow> if mem then Some ''[object]'' else None
      | Some s \<Rightarrow> if mem then Some s else None)"

text \<open>The first loop, over the arguments still to go; \<open>mem i\<close> says whether the allocation for
  argument \<open>i\<close> succeeds.\<close>

fun sum_lengths :: "(nat \<Rightarrow> bool) \<Rightarrow> nat \<Rightarrow> nat \<Rightarrow> string option list \<Rightarrow> nat \<Rightarrow> nat option" where
  "sum_lengths mem argc i [] total_len = Some total_len"
| "sum_lengths mem argc i (v # vs) total_len =
     (case js_value_to_string (mem i) v of
        None \<Rightarrow> None
      | Some temp \<Rightarrow>
          sum_lengths mem argc (Suc i) vs (total_len + length temp + (if i < argc - 1 then 1 else 0)))"

text \<open>The second loop into a buffer of \<open>size\<close> bytes; \<open>out\<close> is what is in it so far, so \<open>offset\<close>
  is its length.\<close>

fun copy_args :: "(nat \<Rightarrow> bool) \<Rightarrow> nat \<Rightarrow> nat \<Rightarrow> nat \<Rightarrow> string option list \<Rightarrow> string \<Rightarrow> string option" where
  "copy_args mem sz argc i [] out = (if length out < sz then Some out else None)"
| "copy_args mem sz argc i (v # vs) out =
     (case js_value_to_string (mem i) v of
        None \<Rightarrow> None
      | Some temp \<Rightarrow>
          if length out + length temp > sz then None
          else if i < argc - 1 then
            (if length out + length temp < sz then copy_args mem sz argc (Suc i) vs (out @ temp @ '' '') else None)
          else copy_args mem sz argc (Suc i) vs (out @ temp))"

text \<open>\<open>first\<close> and \<open>second\<close> are the conversions in the two loops.\<close>

definition concat_args ::
    "(nat \<Rightarrow> bool) \<Rightarrow> (nat \<Rightarrow> bool) \<Rightarrow> bool \<Rightarrow> string option list \<Rightarrow> string option list \<Rightarrow> string option" where
  "concat_args mem1 mem2 mem first second =
     (let argc = length first
      in if argc = 0 then Some []
         else case sum_lengths mem1 argc 0 first 0 of
           None \<Rightarrow> None
         | Some total_len \<Rightarrow>
             if \<not> mem then Some ''[OOM]''
             else copy_args mem2 (total_len + 1) argc 0 second [])"

definition js_console ::
    "string \<Rightarrow> hbf_log_level \<Rightarrow> (nat \<Rightarrow> bool) \<Rightarrow> (nat \<Rightarrow> bool) \<Rightarrow> bool \<Rightarrow> string option list \<Rightarrow> string option list \<Rightarrow>
     log_state \<Rightarrow> log_state option" where
  "js_console timestamp l mem1 mem2 mem first second s =
     map_option (\<lambda>msg. hbf_log timestamp l msg s) (concat_args mem1 mem2 mem first second)"

definition js_console_log where "js_console_log ts = js_console ts HBF_LOG_INFO"
definition js_console_warn where "js_console_warn ts = js_console ts HBF_LOG_WARN"
definition js_console_error where "js_console_error ts = js_console ts HBF_LOG_ERROR"
definition js_console_debug where "js_console_debug ts = js_console ts HBF_LOG_DEBUG"

section \<open>Properties\<close>

text \<open>The text of an argument, and arguments joined by spaces.\<close>

definition arg_text :: "string option \<Rightarrow> string" where
  "arg_text v = (case v of None \<Rightarrow> ''[object]'' | Some s \<Rightarrow> s)"

fun join :: "string list \<Rightarrow> string" where
  "join [] = []"
| "join [s] = s"
| "join (s # t # ts) = s @ '' '' @ join (t # ts)"

lemma value_to_string: "js_value_to_string True v = Some (arg_text v)"
  by (simp add: js_value_to_string_def arg_text_def split: option.splits)

lemma sum_lengths_join:
  "i + length vs = argc \<Longrightarrow> sum_lengths (\<lambda>_. True) argc i vs n = Some (n + length (join (map arg_text vs)))"
proof (induction vs arbitrary: i n)
  case (Cons v vs)
  then show ?case by (cases vs) (auto simp: value_to_string)
qed simp

lemma copy_args_join:
  "i + length vs = argc \<Longrightarrow>
     copy_args (\<lambda>_. True) sz argc i vs out =
       (if length out + length (join (map arg_text vs)) < sz then Some (out @ join (map arg_text vs)) else None)"
proof (induction vs arbitrary: i out)
  case (Cons v vs)
  show ?case
  proof (cases vs)
    case Nil
    with Cons.prems show ?thesis by (auto simp: value_to_string)
  next
    case (Cons w ws)
    with Cons.prems Cons.IH [of "Suc i" "out @ arg_text v @ '' ''"] show ?thesis
      by (auto simp: value_to_string)
  qed
qed simp

text \<open>
  C35. With memory available, \<open>console.log\<close> and the others are safe exactly when the second
  conversion of the arguments is not longer, joined, than the first; then they log the second
  conversion, the arguments separated by single spaces, if the level is enabled.
\<close>

theorem console_safe_iff:
  assumes "length second = length first"
  shows "js_console ts l (\<lambda>_. True) (\<lambda>_. True) True first second s =
    (if length (join (map arg_text second)) \<le> length (join (map arg_text first))
     then Some (if l < current_level s then s
       else s\<lparr>stderr := stderr s @ [log_line ts l (join (map arg_text second))]\<rparr>)
     else None)"
  using assms
  by (auto simp: js_console_def concat_args_def sum_lengths_join copy_args_join hbf_log_def Let_def)

theorem console_safe_iff_witness:
  "js_console ''now'' HBF_LOG_WARN (\<lambda>_. True) (\<lambda>_. True) True [Some ''a'', None] [Some ''a'', None] log_start =
     Some (log_start\<lparr>stderr := [log_line ''now'' HBF_LOG_WARN ''a [object]'']\<rparr>)"
  using console_safe_iff [of "[Some ''a'', None]" "[Some ''a'', None]" "''now''" HBF_LOG_WARN log_start]
  by (simp add: arg_text_def log_start_def level_order)

text \<open>
  An object whose \<open>toString\<close> returns a longer string the second time makes
  \<open>console.log\<close> write behind its heap buffer, at every log level.
\<close>

lemma console_overflow:
  "js_console_log ts (\<lambda>_. True) (\<lambda>_. True) True [Some ''x''] [Some ''xx''] s = None"
  by (simp add: js_console_log_def js_console_def concat_args_def js_value_to_string_def)

end
