(* ===== verification/Request.thy ===== *)
theory Request
  imports Cstd
begin

text \<open>
  hbf/qjs/bindings/request.c: the JavaScript object of a request. CivetWeb's request info is
  input data; an object is a map from names to values, \<open>JS_SetPropertyStr\<close> an update of it. The
  body is what one call of \<open>mg_read\<close> gives.
\<close>

section \<open>Data\<close>

datatype js_val = JS_String string | JS_Object "string \<rightharpoonup> string"

record mg_request_info =
  request_method :: "string option"
  local_uri :: "string option"
  query_string :: "string option"
  http_headers :: "(string \<times> string) list"
  content_length :: int

text \<open>The environment: which of \<open>JS_NewObject\<close>, for the request, the headers and the parameters,
  work, whether the body buffer can be allocated, and what \<open>mg_read\<close> returns for a length.\<close>

record request_env =
  new_req :: bool
  new_headers :: bool
  new_params :: bool
  body_alloc :: bool
  mg_read :: "nat \<Rightarrow> int \<times> string"

datatype created = Req_Null | Req_Exception | Req_Object "string \<rightharpoonup> js_val"

section \<open>The code\<close>

fun set_headers :: "(string \<times> string) list \<Rightarrow> (string \<rightharpoonup> string) \<Rightarrow> (string \<rightharpoonup> string)" where
  "set_headers [] m = m"
| "set_headers ((n, v) # hs) m = set_headers hs (m(n \<mapsto> v))"

definition read_body :: "request_env \<Rightarrow> mg_request_info \<Rightarrow> string" where
  "read_body E ri =
     (if content_length ri > 0 then
        (if body_alloc E then
           (let (bytes_read, buf) = mg_read E (nat (content_length ri))
            in if bytes_read > 0 then take (nat bytes_read) buf else '''')
         else '''')
      else '''')"

text \<open>\<open>ri\<close> is \<open>None\<close> when CivetWeb has no request info, \<open>args_ok\<close> says that \<open>ctx\<close> and \<open>conn\<close> are not
  NULL.\<close>

definition hbf_qjs_create_request :: "request_env \<Rightarrow> bool \<Rightarrow> mg_request_info option \<Rightarrow> created" where
  "hbf_qjs_create_request E args_ok ri =
     (if \<not> args_ok then Req_Null
      else case ri of
        None \<Rightarrow> Req_Null
      | Some ri \<Rightarrow>
          if \<not> new_req E then Req_Exception
          else let
            req0 = [''method'' \<mapsto> JS_String (case request_method ri of None \<Rightarrow> ''GET'' | Some m \<Rightarrow> m),
                    ''path'' \<mapsto> JS_String (case local_uri ri of None \<Rightarrow> ''/'' | Some p \<Rightarrow> p),
                    ''query'' \<mapsto> JS_String (case query_string ri of None \<Rightarrow> '''' | Some q \<Rightarrow> q)];
            req1 = (if new_headers E
                    then req0(''headers'' \<mapsto> JS_Object (set_headers (http_headers ri) Map.empty)) else req0);
            req2 = (if new_params E then req1(''params'' \<mapsto> JS_Object Map.empty) else req1)
          in Req_Object (req2(''body'' \<mapsto> JS_String (read_body E ri))))"

section \<open>Properties\<close>

lemma set_headers_map_of: "set_headers hs m = m ++ map_of (rev hs)"
proof (induction hs m rule: set_headers.induct)
  case (2 n v hs m)
  have "m ++ map_of (rev ((n, v) # hs)) = m(n \<mapsto> v) ++ map_of (rev hs)"
    by (rule ext) (simp add: map_add_def split: option.splits)
  with 2 show ?case by (simp add: fun_upd_def)
qed simp

text \<open>
  C32. The request object of a request whose objects can be created has exactly the six
  properties method, path, query, headers, params and body, with CivetWeb's values or the
  defaults; of several headers with one name the last counts; the body is what was read, at
  most \<open>content_length\<close> bytes of it, and empty when there is none. The sixth, body, is in the
  code only: request.h lists the other five, and DOCS/hbf_spec.md says that the body of a
  POST or PUT is not supported.
\<close>

theorem request_object_spec:
  assumes "new_req E" "new_headers E" "new_params E"
    and "\<And>n. fst (mg_read E n) \<le> int n" "\<And>n. nat (fst (mg_read E n)) \<le> length (snd (mg_read E n))"
    and "hbf_qjs_create_request E True (Some ri) = Req_Object req"
  shows "dom req = {''method'', ''path'', ''query'', ''headers'', ''params'', ''body''} \<and>
    req ''method'' = Some (JS_String (case request_method ri of None \<Rightarrow> ''GET'' | Some m \<Rightarrow> m)) \<and>
    req ''path'' = Some (JS_String (case local_uri ri of None \<Rightarrow> ''/'' | Some p \<Rightarrow> p)) \<and>
    req ''query'' = Some (JS_String (case query_string ri of None \<Rightarrow> '''' | Some q \<Rightarrow> q)) \<and>
    req ''headers'' = Some (JS_Object (map_of (rev (http_headers ri)))) \<and>
    req ''params'' = Some (JS_Object Map.empty) \<and>
    (\<exists>b. req ''body'' = Some (JS_String b) \<and> int (length b) \<le> max 0 (content_length ri) \<and>
       (body_alloc E \<and> 0 < content_length ri \<and> 0 < fst (mg_read E (nat (content_length ri))) \<longrightarrow>
          b = take (nat (fst (mg_read E (nat (content_length ri))))) (snd (mg_read E (nat (content_length ri))))))"
proof -
  let ?n = "nat (content_length ri)"
  have b: "int (length (read_body E ri)) \<le> max 0 (content_length ri)"
    using assms(4) [of ?n] assms(5) [of ?n] by (auto simp: read_body_def case_prod_unfold min_def Let_def)
  have e: "body_alloc E \<and> 0 < content_length ri \<and> 0 < fst (mg_read E ?n) \<longrightarrow>
      read_body E ri = take (nat (fst (mg_read E ?n))) (snd (mg_read E ?n))"
    by (simp add: read_body_def case_prod_unfold Let_def)
  show ?thesis
    using assms(1-3,6) b e
    by (auto simp: hbf_qjs_create_request_def Let_def set_headers_map_of split: if_splits)
qed

definition sample_request :: mg_request_info where
  "sample_request = \<lparr>request_method = Some ''POST'', local_uri = Some ''/x'', query_string = None,
     http_headers = [(''A'', ''1''), (''A'', ''2'')], content_length = 3\<rparr>"

definition sample_request_env :: request_env where
  "sample_request_env = \<lparr>new_req = True, new_headers = True, new_params = True, body_alloc = True,
     mg_read = \<lambda>n. (int (min n 2), take n ''ab'')\<rparr>"

theorem request_object_spec_witness:
  "\<exists>req. hbf_qjs_create_request sample_request_env True (Some sample_request) = Req_Object req \<and>
     req ''headers'' = Some (JS_Object [''A'' \<mapsto> ''2'']) \<and> req ''body'' = Some (JS_String ''ab'')"
proof -
  obtain req where run: "hbf_qjs_create_request sample_request_env True (Some sample_request) = Req_Object req"
    by (simp add: hbf_qjs_create_request_def sample_request_env_def Let_def)
  show ?thesis
    using request_object_spec [OF _ _ _ _ _ run] run
    by (auto simp: sample_request_env_def sample_request_def)
qed

end
