(* ===== verification/Engine.thy ===== *)
theory Engine
  imports Module_Loader Response Cstd "HOL-Library.While_Combinator" "HOL-Library.Multiset"
begin

text \<open>
  hbf/qjs/engine.c: the global configuration, the execution time limit, and the life of a
  QuickJS context. QuickJS is not under src/; what its calls return is decided by an oracle
  indexed by the number of the call. The state records, as a trace of events, which
  resources the code acquires and gives back: allocations, the runtime, the context, values
  and strings of JavaScript, and (in \<open>Handler\<close>) the mutex.
\<close>

section \<open>Global configuration\<close>

record qjs_config =
  mem_limit_bytes :: u64
  timeout_ms :: int
  initialized :: bool

definition g_qjs_config :: qjs_config where
  "g_qjs_config = \<lparr>mem_limit_bytes = 0, timeout_ms = 0, initialized = False\<rparr>"

definition hbf_qjs_init :: "u64 \<Rightarrow> int \<Rightarrow> qjs_config \<Rightarrow> int \<times> qjs_config" where
  "hbf_qjs_init mem_limit_mb timeout cfg =
     (if initialized cfg then (0, cfg)
      else (0, \<lparr>mem_limit_bytes = mem_limit_mb * 1024 * 1024, timeout_ms = timeout, initialized = True\<rparr>))"

definition hbf_qjs_shutdown :: "qjs_config \<Rightarrow> qjs_config" where
  "hbf_qjs_shutdown cfg = (if \<not> initialized cfg then cfg else cfg\<lparr>initialized := False\<rparr>)"

section \<open>Events and oracle\<close>

datatype resource =
    Mutex | Wrapper | Runtime | Context | Own_db | Buffer | Response | Value string | Cstring string

text \<open>\<open>Reply\<close> is \<open>mg_send_http_error\<close>, \<open>Send\<close> the message of \<open>hbf_send_response\<close>.\<close>

datatype event = Get resource | Put resource | Reply int | Send string

datatype js_kind = K_exception | K_null | K_undefined | K_function | K_other

text \<open>\<open>works n\<close>: whether the \<open>n\<close>-th fallible call succeeds; \<open>kind n\<close>: what kind of value it
  returns; \<open>text_of n\<close>: the C string it returns; \<open>time n\<close>: the monotonic clock in ms;
  \<open>job n k\<close>: the status of the \<open>k\<close>-th \<open>JS_ExecutePendingJob\<close> of a loop that starts at call \<open>n\<close>,
  positive while there are jobs, 0 when none is left, negative on an error; \<open>new_class_id\<close> is
  \<open>JS_NewClassID\<close> in a new runtime.\<close>

record js_env =
  works :: "nat \<Rightarrow> bool"
  kind :: "nat \<Rightarrow> js_kind"
  text_of :: "nat \<Rightarrow> string option"
  time :: "nat \<Rightarrow> int"
  job :: "nat \<Rightarrow> nat \<Rightarrow> int"
  new_class_id :: "nat \<Rightarrow> nat"

text \<open>\<open>response_class\<close> is the static variable \<open>hbf_response_class_id\<close> of bindings/response.c.\<close>

record world =
  trace :: "event list"
  calls :: nat
  dbc :: conn
  response_class :: nat

type_synonym 'a js = "(world, 'a) state"

definition emit :: "event list \<Rightarrow> unit js" where
  "emit es = State (\<lambda>w. ((), w\<lparr>trace := trace w @ es\<rparr>))"

definition next_js :: "nat js" where
  "next_js = State (\<lambda>w. (calls w, w\<lparr>calls := Suc (calls w)\<rparr>))"

definition js_works :: "js_env \<Rightarrow> bool js" where
  "js_works J = do { n \<leftarrow> next_js; ret (works J n) }"

text \<open>Exceptions, null and undefined are not reference counted; \<open>JS_FreeValue\<close> ignores them.\<close>

definition counted :: "js_kind \<Rightarrow> bool" where
  "counted k \<longleftrightarrow> k = K_function \<or> k = K_other"

definition value_got :: "string \<Rightarrow> js_kind \<Rightarrow> event list" where
  "value_got nm k = (if counted k then [Get (Value nm)] else [])"

definition free_value :: "string \<Rightarrow> js_kind \<Rightarrow> event list" where
  "free_value nm k = (if counted k then [Put (Value nm)] else [])"

definition js_value :: "js_env \<Rightarrow> string \<Rightarrow> js_kind js" where
  "js_value J nm = do { n \<leftarrow> next_js; _ \<leftarrow> emit (value_got nm (kind J n)); ret (kind J n) }"

definition free_cstring :: "string \<Rightarrow> string option \<Rightarrow> event list" where
  "free_cstring nm s = (if s = None then [] else [Put (Cstring nm)])"

definition js_cstring :: "js_env \<Rightarrow> string \<Rightarrow> string option js" where
  "js_cstring J nm = do {
     n \<leftarrow> next_js;
     (case text_of J n of
        None \<Rightarrow> ret None
      | Some s \<Rightarrow> do { _ \<leftarrow> emit [Get (Cstring nm)]; ret (Some s) })
   }"

definition hbf_qjs_get_time_ms :: "js_env \<Rightarrow> int js" where
  "hbf_qjs_get_time_ms J = do { n \<leftarrow> next_js; ret (time J n) }"

text \<open>The loop over the job queue: the first status that is not positive, or \<open>None\<close> when the
  queue never drains.\<close>

definition run_jobs :: "(nat \<Rightarrow> int) \<Rightarrow> int option" where
  "run_jobs st = map_option st (while_option (\<lambda>k. st k > 0) Suc 0)"

section \<open>The interrupt handler\<close>

text \<open>\<open>loader_db\<close> is what \<open>JS_SetModuleLoaderFunc\<close> gave the runtime of the context, if it did.\<close>

record qjs_ctx =
  has_rt :: bool
  has_ctx :: bool
  error_buf :: string
  start_time_ms :: int
  ctx_db :: sqlite3_ptr
  own_db :: bool
  loader_db :: "sqlite3_ptr option"

definition hbf_qjs_interrupt_handler :: "qjs_config \<Rightarrow> int \<Rightarrow> qjs_ctx \<Rightarrow> int" where
  "hbf_qjs_interrupt_handler cfg now ctx =
     (if timeout_ms cfg = 0 then 0
      else let elapsed = now - start_time_ms ctx
           in if elapsed > timeout_ms cfg then 1 else 0)"

definition hbf_qjs_begin_exec :: "js_env \<Rightarrow> qjs_ctx \<Rightarrow> qjs_ctx js" where
  "hbf_qjs_begin_exec J ctx = do { t \<leftarrow> hbf_qjs_get_time_ms J; ret (ctx\<lparr>start_time_ms := t\<rparr>) }"

section \<open>Creating and destroying a context\<close>

text \<open>The modules \<open>db\<close> and \<open>console\<close>: \<open>JS_SetPropertyStr\<close> takes the object over.\<close>

definition init_module :: "js_env \<Rightarrow> string \<Rightarrow> unit js" where
  "init_module J nm = do {
     obj \<leftarrow> js_value J nm;
     global_obj \<leftarrow> js_value J ''global_obj'';
     emit (free_value nm obj @ free_value ''global_obj'' global_obj)
   }"

definition hbf_qjs_init_db_module :: "js_env \<Rightarrow> int js" where
  "hbf_qjs_init_db_module J = do { _ \<leftarrow> init_module J ''db''; ret 0 }"

definition hbf_qjs_init_console_module :: "js_env \<Rightarrow> int js" where
  "hbf_qjs_init_console_module J = do { _ \<leftarrow> init_module J ''console''; ret 0 }"

text \<open>\<open>hbf_qjs_init_response_class\<close> of bindings/response.c on the static variable.\<close>

definition init_response_class :: "js_env \<Rightarrow> unit js" where
  "init_response_class J = State (\<lambda>w. ((),
     w\<lparr>response_class := hbf_qjs_init_response_class (new_class_id J) (response_class w)\<rparr>))"

definition hbf_qjs_ctx_create_internal ::
    "js_env \<Rightarrow> qjs_config \<Rightarrow> sqlite3_ptr \<Rightarrow> bool \<Rightarrow> qjs_ctx option js" where
  "hbf_qjs_ctx_create_internal J cfg db own =
     (if \<not> initialized cfg then ret None
      else do {
        a \<leftarrow> js_works J;
        if \<not> a then ret None
        else do {
          _ \<leftarrow> emit [Get Wrapper];
          rt \<leftarrow> js_works J;
          if \<not> rt then do { _ \<leftarrow> emit [Put Wrapper]; ret None }
          else do {
            _ \<leftarrow> emit [Get Runtime];
            c \<leftarrow> js_works J;
            if \<not> c then do { _ \<leftarrow> emit [Put Runtime, Put Wrapper]; ret None }
            else do {
              _ \<leftarrow> emit [Get Context];
              t \<leftarrow> hbf_qjs_get_time_ms J;
              let_db \<leftarrow> (if db \<noteq> Null_db then ret (Some (db, False))
                        else if own then do {
                          opened_ok \<leftarrow> js_works J;
                          if opened_ok then do { _ \<leftarrow> emit [Get Own_db]; ret (Some (Main_db, True)) }
                          else do {
                            got_handle \<leftarrow> js_works J;
                            _ \<leftarrow> emit (if got_handle then [Get Own_db, Put Own_db] else []);
                            _ \<leftarrow> emit [Put Context, Put Runtime, Put Wrapper];
                            ret None
                          }
                        }
                        else ret (Some (Null_db, False)));
              (case let_db of
                 None \<Rightarrow> ret None
               | Some (d, o') \<Rightarrow> do {
                   _ \<leftarrow> hbf_qjs_init_db_module J;
                   _ \<leftarrow> hbf_qjs_init_console_module J;
                   _ \<leftarrow> init_response_class J;
                   ret (Some \<lparr>has_rt = True, has_ctx = True, error_buf = [], start_time_ms = t,
                              ctx_db = d, own_db = o',
                              loader_db = hbf_qjs_module_loader_init True d\<rparr>)
                 })
            }
          }
        }
      })"

definition hbf_qjs_ctx_create :: "js_env \<Rightarrow> qjs_config \<Rightarrow> qjs_ctx option js" where
  "hbf_qjs_ctx_create J cfg = hbf_qjs_ctx_create_internal J cfg Null_db True"

definition hbf_qjs_ctx_create_with_db :: "js_env \<Rightarrow> qjs_config \<Rightarrow> sqlite3_ptr \<Rightarrow> qjs_ctx option js" where
  "hbf_qjs_ctx_create_with_db J cfg db =
     (case db of Null_db \<Rightarrow> ret None | Main_db \<Rightarrow> hbf_qjs_ctx_create_internal J cfg db False)"

definition hbf_qjs_ctx_destroy :: "qjs_ctx option \<Rightarrow> unit js" where
  "hbf_qjs_ctx_destroy ctx =
     (case ctx of
        None \<Rightarrow> ret ()
      | Some c \<Rightarrow> do {
          _ \<leftarrow> emit (if ctx_db c \<noteq> Null_db \<and> own_db c then [Put Own_db] else []);
          _ \<leftarrow> emit (if has_ctx c \<and> has_rt c then [Put Context, Put Runtime] else []);
          emit [Put Wrapper]
        })"

section \<open>Evaluation\<close>

text \<open>\<open>snprintf(error_buf, 512, "%s", ...)\<close> from the pending exception.\<close>

definition take_error :: "js_env \<Rightarrow> string option \<Rightarrow> js_kind \<Rightarrow> qjs_ctx \<Rightarrow> qjs_ctx js" where
  "take_error J fallback result c = do {
     exception \<leftarrow> js_value J ''exception'';
     str \<leftarrow> js_cstring J ''str'';
     _ \<leftarrow> emit (free_cstring ''str'' str @ free_value ''exception'' exception @ free_value ''result'' result);
     ret (case str of
            Some s \<Rightarrow> c\<lparr>error_buf := snprintf_s 512 s\<rparr>
          | None \<Rightarrow> (case fallback of None \<Rightarrow> c | Some m \<Rightarrow> c\<lparr>error_buf := snprintf_s 512 m\<rparr>))
   }"

definition hbf_qjs_eval :: "js_env \<Rightarrow> qjs_ctx option \<Rightarrow> string option \<Rightarrow> (int \<times> qjs_ctx option) js" where
  "hbf_qjs_eval J ctx code =
     (case (ctx, code) of
        (Some c0, Some src) \<Rightarrow>
          if \<not> has_ctx c0 then ret (-1, ctx)
          else do {
            t \<leftarrow> hbf_qjs_get_time_ms J;
            result \<leftarrow> js_value J ''result'';
            if result = K_exception then do {
              c \<leftarrow> take_error J (Some ''Unknown JavaScript error'') result (c0\<lparr>start_time_ms := t\<rparr>);
              ret (-1, Some c)
            }
            else do {
              _ \<leftarrow> emit (free_value ''result'' result);
              ret (0, Some (c0\<lparr>start_time_ms := t, error_buf := []\<rparr>))
            }
          }
      | _ \<Rightarrow> ret (-1, ctx))"

text \<open>The outer \<open>None\<close>: the job queue never drains and the call does not return.\<close>

definition hbf_qjs_eval_module ::
    "js_env \<Rightarrow> qjs_ctx option \<Rightarrow> string option \<Rightarrow> (int \<times> qjs_ctx option) option js" where
  "hbf_qjs_eval_module J ctx code =
     (case (ctx, code) of
        (Some c0, Some src) \<Rightarrow>
          if \<not> has_ctx c0 then ret (Some (-1, ctx))
          else do {
            t \<leftarrow> hbf_qjs_get_time_ms J;
            result \<leftarrow> js_value J ''result'';
            if result = K_exception then do {
              c \<leftarrow> take_error J (Some ''Unknown JavaScript module error'') result (c0\<lparr>start_time_ms := t\<rparr>);
              ret (Some (-1, Some c))
            }
            else do {
              n \<leftarrow> next_js;
              (case run_jobs (job J n) of
                 None \<Rightarrow> ret None
               | Some st \<Rightarrow>
                   if st < 0 then do {
                     c \<leftarrow> take_error J None result (c0\<lparr>start_time_ms := t\<rparr>);
                     ret (Some (-1, Some c))
                   }
                   else do {
                     _ \<leftarrow> emit (free_value ''result'' result);
                     ret (Some (0, Some (c0\<lparr>start_time_ms := t, error_buf := []\<rparr>)))
                   })
            }
          }
      | _ \<Rightarrow> ret (Some (-1, ctx)))"

definition hbf_qjs_get_error :: "qjs_ctx option \<Rightarrow> string option" where
  "hbf_qjs_get_error ctx =
     (case ctx of None \<Rightarrow> None | Some c \<Rightarrow> if error_buf c = [] then None else Some (error_buf c))"

definition hbf_qjs_get_js_context :: "qjs_ctx option \<Rightarrow> bool" where
  "hbf_qjs_get_js_context ctx = (case ctx of None \<Rightarrow> False | Some c \<Rightarrow> has_ctx c)"

definition hbf_qjs_get_js_runtime :: "qjs_ctx option \<Rightarrow> bool" where
  "hbf_qjs_get_js_runtime ctx = (case ctx of None \<Rightarrow> False | Some c \<Rightarrow> has_rt c)"

end
