(* ===== verification/Js_Trace.thy ===== *)
theory Js_Trace
  imports Engine
begin

text \<open>
  The discipline the traces of engine.c and handler.c have to keep: which resource may be
  acquired and given back when. A small logic (\<open>triple\<close>, with one rule per primitive) carries
  the resources held through the code.
\<close>

section \<open>The discipline\<close>

text \<open>A resource is acquired only while the ones it needs are held, and a resource is given
  back only when no resource that needs it is left. \<open>malloc\<close>ed buffers need nothing.\<close>

fun needs :: "resource \<Rightarrow> resource set" where
  "needs Mutex = {}"
| "needs Wrapper = {Mutex}"
| "needs Runtime = {Mutex, Wrapper}"
| "needs Context = {Mutex, Wrapper, Runtime}"
| "needs Own_db = {Mutex}"
| "needs Buffer = {}"
| "needs Response = {Mutex}"
| "needs (Value nm) = {Mutex, Context}"
| "needs (Cstring nm) = {Mutex, Context}"

text \<open>The resources held, and the messages sent to the client so far.\<close>

type_synonym held = "resource set \<times> event list"

fun observe :: "held \<Rightarrow> event \<Rightarrow> held option" where
  "observe (H, out) (Get r) =
     (if r \<notin> H \<and> needs r \<subseteq> H then Some (insert r H, out) else None)"
| "observe (H, out) (Put r) =
     (if r \<in> H \<and> (\<forall>q\<in>H. r \<notin> needs q) then Some (H - {r}, out) else None)"
| "observe (H, out) e = Some (H, out @ [e])"

fun accepts :: "held \<Rightarrow> event list \<Rightarrow> held option" where
  "accepts s [] = Some s"
| "accepts s (e # es) = (case observe s e of None \<Rightarrow> None | Some s' \<Rightarrow> accepts s' es)"

lemma accepts_append:
  "accepts s (xs @ ys) = (case accepts s xs of None \<Rightarrow> None | Some s' \<Rightarrow> accepts s' ys)"
  by (induction s xs rule: accepts.induct) (auto split: option.splits)

section \<open>Values and strings that may be held\<close>

definition hold_value :: "string \<Rightarrow> js_kind \<Rightarrow> resource set" where
  "hold_value nm k = (if counted k then {Value nm} else {})"

definition hold_cstring :: "string \<Rightarrow> string option \<Rightarrow> resource set" where
  "hold_cstring nm s = (if s = None then {} else {Cstring nm})"

lemma hold_mem [simp]:
  "Mutex \<notin> hold_value nm k" "Wrapper \<notin> hold_value nm k" "Runtime \<notin> hold_value nm k"
  "Context \<notin> hold_value nm k" "Own_db \<notin> hold_value nm k" "Buffer \<notin> hold_value nm k"
  "Response \<notin> hold_value nm k" "Cstring c \<notin> hold_value nm k"
  "Mutex \<notin> hold_cstring nm s" "Wrapper \<notin> hold_cstring nm s" "Runtime \<notin> hold_cstring nm s"
  "Context \<notin> hold_cstring nm s" "Own_db \<notin> hold_cstring nm s" "Buffer \<notin> hold_cstring nm s"
  "Response \<notin> hold_cstring nm s" "Value v \<notin> hold_cstring nm s"
  "Value v \<in> hold_value nm k \<longleftrightarrow> v = nm \<and> counted k"
  "Cstring c \<in> hold_cstring nm s \<longleftrightarrow> c = nm \<and> s \<noteq> None"
  by (auto simp: hold_value_def hold_cstring_def)

lemma accepts_value_got:
  "accepts (H, out) (value_got nm k @ es) =
     (if counted k \<longrightarrow> Value nm \<notin> H \<and> Mutex \<in> H \<and> Context \<in> H
      then accepts (hold_value nm k \<union> H, out) es else None)"
  by (auto simp: value_got_def hold_value_def)

lemma hold_fresh [simp]:
  "Value nm \<notin> H \<Longrightarrow> hold_value nm k \<inter> H = {}" "Cstring c \<notin> H \<Longrightarrow> hold_cstring c s \<inter> H = {}"
  by (auto simp: hold_value_def hold_cstring_def)

text \<open>Resources nothing else needs can go back in any order.\<close>

definition loose :: "resource \<Rightarrow> bool" where
  "loose r \<longleftrightarrow> (\<forall>q \<in> {Wrapper, Runtime, Context, Mutex}. r \<noteq> q)"

lemma loose_simps [simp]:
  "loose (Value nm)" "loose (Cstring nm)" "loose Response" "loose Buffer" "loose Own_db"
  by (simp_all add: loose_def)

lemma loose_not_needed: "loose r \<Longrightarrow> r \<notin> needs q"
  by (cases q) (auto simp: loose_def)

lemma accepts_puts:
  "distinct rs \<Longrightarrow> set rs \<subseteq> H \<Longrightarrow> list_all loose rs \<Longrightarrow>
   accepts (H, out) (map Put rs) = Some (H - set rs, out)"
  by (induction rs arbitrary: H) (auto simp: loose_not_needed Diff_insert2 [symmetric] subset_Diff_insert)

definition value_list :: "string \<Rightarrow> js_kind \<Rightarrow> resource list" where
  "value_list nm k = (if counted k then [Value nm] else [])"

definition cstring_list :: "string \<Rightarrow> string option \<Rightarrow> resource list" where
  "cstring_list nm s = (if s = None then [] else [Cstring nm])"

lemma free_as_puts:
  "free_value nm k = map Put (value_list nm k)" "free_cstring nm s = map Put (cstring_list nm s)"
  by (simp_all add: free_value_def value_list_def free_cstring_def cstring_list_def)

lemma loose_lists [simp]:
  "list_all loose (value_list nm k)" "list_all loose (cstring_list nm s)"
  "distinct (value_list nm k)" "distinct (cstring_list nm s)"
  "set (value_list nm k) = hold_value nm k" "set (cstring_list nm s) = hold_cstring nm s"
  by (auto simp: value_list_def cstring_list_def hold_value_def hold_cstring_def)

lemma hold_disjoint [simp]:
  "nm \<noteq> nm' \<Longrightarrow> hold_value nm k \<inter> hold_value nm' k' = {}"
  "nm \<noteq> nm' \<Longrightarrow> hold_cstring nm s \<inter> hold_cstring nm' s' = {}"
  "hold_value nm k \<inter> hold_cstring c s = {}" "hold_cstring c s \<inter> hold_value nm k = {}"
  by (auto simp: hold_value_def hold_cstring_def)

text \<open>A group of values, strings and structs released together, in any order.\<close>

lemma accepts_release_group:
  assumes "distinct rs" "list_all loose rs" "set rs = X" "X \<inter> H = {}"
  shows "accepts (X \<union> H, out) (map Put rs) = Some (H, out)"
proof -
  have "X \<union> H - X = H" using assms(4) by auto
  with accepts_puts [of rs "X \<union> H" out] assms show ?thesis by simp
qed

section \<open>Triples\<close>

text \<open>From the resources \<open>s\<close> and the database \<open>d\<close>, \<open>m\<close> appends a trace that keeps the discipline
  and ends with a value, resources and a database that satisfy \<open>Q\<close>.\<close>

definition triple :: "held \<Rightarrow> conn \<Rightarrow> 'a js \<Rightarrow> ('a \<Rightarrow> held \<Rightarrow> conn \<Rightarrow> bool) \<Rightarrow> bool" where
  "triple s d m Q \<longleftrightarrow>
     (\<forall>w x w'. dbc w = d \<longrightarrow> run_state m w = (x, w') \<longrightarrow>
        (\<exists>es s'. trace w' = trace w @ es \<and> accepts s es = Some s' \<and> Q x s' (dbc w')))"

lemma triple_ret: "Q x s d \<Longrightarrow> triple s d (ret x) Q"
  by (auto simp: triple_def State_Monad.return_def simp del: split_paired_Ex)

lemma triple_bind:
  assumes "triple s d m (\<lambda>x s' d'. triple s' d' (f x) Q)"
  shows "triple s d (State_Monad.bind m f) Q"
  unfolding triple_def
proof (intro allI impI)
  fix w x w'
  assume d: "dbc w = d" and run: "run_state (State_Monad.bind m f) w = (x, w')"
  obtain y v where m: "run_state m w = (y, v)" by (rule prod.exhaust)
  with run have f: "run_state (f y) v = (x, w')" by (simp add: State_Monad.bind_def)
  from assms d m obtain es s' where 1: "trace v = trace w @ es" "accepts s es = Some s'"
    "triple s' (dbc v) (f y) Q" unfolding triple_def by blast
  from 1(3) f obtain fs s'' where "trace w' = trace v @ fs" "accepts s' fs = Some s''"
    "Q x s'' (dbc w')" unfolding triple_def by blast
  with 1 show "\<exists>es s'. trace w' = trace w @ es \<and> accepts s es = Some s' \<and> Q x s' (dbc w')"
    by (auto simp: accepts_append simp del: split_paired_Ex)
qed

lemma triple_conseq:
  assumes "triple s d m P" "\<And>x s' d'. P x s' d' \<Longrightarrow> Q x s' d'"
  shows "triple s d m Q"
  using assms unfolding triple_def by blast

lemma triple_emit: "accepts s es = Some s' \<Longrightarrow> Q () s' d \<Longrightarrow> triple s d (emit es) Q"
  by (auto simp: triple_def emit_def simp del: split_paired_Ex)

lemma triple_emit_case:
  "(case accepts s es of None \<Rightarrow> False | Some s' \<Rightarrow> Q () s' d) \<Longrightarrow> triple s d (emit es) Q"
  by (cases "accepts s es") (auto intro: triple_emit)

lemma triple_next: "(\<And>n. Q n s d) \<Longrightarrow> triple s d next_js Q"
  by (auto simp: triple_def next_js_def simp del: split_paired_Ex)

lemma triple_works: "(\<And>b. Q b s d) \<Longrightarrow> triple s d (js_works J) Q"
  unfolding js_works_def by (intro triple_bind triple_next triple_ret)

lemma triple_time: "(\<And>t. Q t s d) \<Longrightarrow> triple s d (hbf_qjs_get_time_ms J) Q"
  unfolding hbf_qjs_get_time_ms_def by (intro triple_bind triple_next triple_ret)

lemma triple_value:
  assumes "Value nm \<notin> H" "Mutex \<in> H" "Context \<in> H" "\<And>k. Q k (hold_value nm k \<union> H, out) d"
  shows "triple (H, out) d (js_value J nm) Q"
  unfolding js_value_def
proof (intro triple_bind triple_next)
  fix n
  have "accepts (H, out) (value_got nm (kind J n)) = Some (hold_value nm (kind J n) \<union> H, out)"
    using accepts_value_got [of H out nm "kind J n" "[]"] assms(1-3) by simp
  then show "triple (H, out) d (emit (value_got nm (kind J n)))
      (\<lambda>x s' d'. triple s' d' (ret (kind J n)) Q)"
    by (rule triple_emit) (rule triple_ret, rule assms(4))
qed

lemma triple_cstring:
  assumes "Cstring nm \<notin> H" "Mutex \<in> H" "Context \<in> H" "\<And>o'. Q o' (hold_cstring nm o' \<union> H, out) d"
  shows "triple (H, out) d (js_cstring J nm) Q"
  unfolding js_cstring_def
proof (intro triple_bind triple_next)
  fix n
  show "triple (H, out) d (case text_of J n of None \<Rightarrow> ret None
      | Some s \<Rightarrow> State_Monad.bind (emit [Get (Cstring nm)]) (\<lambda>_. ret (Some s))) Q"
  proof (cases "text_of J n")
    case None
    then show ?thesis using assms(4) [of None] by (auto intro!: triple_ret simp: hold_cstring_def)
  next
    case (Some s)
    have "accepts (H, out) [Get (Cstring nm)] = Some (hold_cstring nm (Some s) \<union> H, out)"
      using assms(1-3) by (simp add: hold_cstring_def)
    with Some show ?thesis by (auto intro!: triple_bind triple_emit triple_ret assms(4))
  qed
qed

lemma triple_class: "Q () s d \<Longrightarrow> triple s d (init_response_class J) Q"
  by (auto simp: triple_def init_response_class_def simp del: split_paired_Ex)

lemma triple_if: "(b \<Longrightarrow> triple s d m Q) \<Longrightarrow> (\<not> b \<Longrightarrow> triple s d m' Q) \<Longrightarrow>
    triple s d (if b then m else m') Q"
  by simp

lemma triple_option: "(x = None \<Longrightarrow> triple s d m Q) \<Longrightarrow> (\<And>y. x = Some y \<Longrightarrow> triple s d (f y) Q) \<Longrightarrow>
    triple s d (case x of None \<Rightarrow> m | Some y \<Rightarrow> f y) Q"
  by (cases x) auto

end
