(* ===== verification/Engine_Props.thy ===== *)
theory Engine_Props
  imports Js_Trace
begin

text \<open>
  The engine keeps the discipline of \<open>Js_Trace\<close>: creating, evaluating in and destroying a
  context. What an evaluation returns, and when it does not.
\<close>

section \<open>Contexts\<close>

definition engine_held :: "resource set" where
  "engine_held = {Mutex, Wrapper, Runtime, Context}"

lemma engine_held_mem [simp]:
  "Mutex \<in> engine_held" "Context \<in> engine_held" "Wrapper \<in> engine_held" "Runtime \<in> engine_held"
  "Value v \<notin> engine_held" "Cstring c \<notin> engine_held" "Buffer \<notin> engine_held"
  "Response \<notin> engine_held" "Own_db \<notin> engine_held"
  by (simp_all add: engine_held_def)

lemma triple_init_module:
  assumes "Mutex \<in> H" "Context \<in> H" "Value nm \<notin> H" "Value ''global_obj'' \<notin> H" "nm \<noteq> ''global_obj''"
    and "Q () (H, out) d"
  shows "triple (H, out) d (init_module J nm) Q"
proof -
  have "accepts ((hold_value ''global_obj'' k' \<union> hold_value nm k) \<union> H, out)
      (map Put (value_list nm k @ value_list ''global_obj'' k')) = Some (H, out)" for k k'
    using assms(3-5) by (intro accepts_release_group) (auto simp: Int_Un_distrib2)
  then have "accepts (hold_value ''global_obj'' k' \<union> (hold_value nm k \<union> H), out)
      (free_value nm k @ free_value ''global_obj'' k') = Some (H, out)" for k k'
    by (simp add: free_as_puts Un_assoc)
  then show ?thesis
    unfolding init_module_def
    by (intro triple_bind triple_value triple_emit) (use assms in auto)
qed

definition created_ctx :: "bool \<Rightarrow> event list \<Rightarrow> conn \<Rightarrow> qjs_ctx option \<Rightarrow> held \<Rightarrow> conn \<Rightarrow> bool" where
  "created_ctx own out d x s' d' \<longleftrightarrow> d' = d \<and>
     (case x of
        None \<Rightarrow> s' = ({Mutex}, out)
      | Some c \<Rightarrow> has_ctx c \<and> has_rt c \<and> (own_db c \<longrightarrow> own \<and> ctx_db c \<noteq> Null_db) \<and>
          s' = ((if own_db c then {Own_db} else {}) \<union> engine_held, out))"

lemmas triple_intros = triple_bind triple_if triple_ret triple_works triple_time triple_next triple_class
  triple_emit_case triple_option

lemma triple_create:
  "triple ({Mutex}, out) d (hbf_qjs_ctx_create_internal J cfg db own) (created_ctx own out d)"
  unfolding hbf_qjs_ctx_create_internal_def hbf_qjs_init_db_module_def hbf_qjs_init_console_module_def
  by (intro triple_intros triple_init_module)
    (auto intro!: triple_intros triple_init_module simp: created_ctx_def engine_held_def)

lemma triple_create_with_db:
  "triple ({Mutex}, out) d (hbf_qjs_ctx_create_with_db J cfg db) (created_ctx False out d)"
  using triple_create [of out d J cfg Main_db False]
  by (auto simp: hbf_qjs_ctx_create_with_db_def created_ctx_def intro!: triple_ret
      split: sqlite3_ptr.split)

text \<open>Everything a context holds goes back, in the order that keeps the discipline.\<close>

lemma triple_destroy:
  assumes "has_ctx c" "has_rt c" "own_db c \<longrightarrow> ctx_db c \<noteq> Null_db" "B \<subseteq> {Buffer}"
    and "Q () (B \<union> {Mutex}, out) d"
  shows "triple (B \<union> ((if own_db c then {Own_db} else {}) \<union> engine_held), out) d
    (hbf_qjs_ctx_destroy (Some c)) Q"
proof -
  have "B \<in> {{}, {Buffer}}" using assms(4) by auto
  then show ?thesis
    using assms(1,2,3,5) unfolding hbf_qjs_ctx_destroy_def engine_held_def
    by (cases "own_db c") (auto intro!: triple_intros simp: insert_Diff_if)
qed

section \<open>Evaluation\<close>

definition same_ctx :: "qjs_ctx \<Rightarrow> qjs_ctx \<Rightarrow> bool" where
  "same_ctx c c' \<longleftrightarrow> has_ctx c' = has_ctx c \<and> has_rt c' = has_rt c \<and> own_db c' = own_db c \<and>
     ctx_db c' = ctx_db c"

lemma triple_take_error:
  assumes "Mutex \<in> H" "Context \<in> H" "\<And>v. Value v \<notin> H" "\<And>v. Cstring v \<notin> H"
    and "\<And>c'. same_ctx c c' \<Longrightarrow> Q c' (H, out) d"
  shows "triple (hold_value ''result'' k \<union> H, out) d (take_error J fb k c) Q"
proof -
  have "accepts ((hold_cstring ''str'' st \<union> hold_value ''exception'' e \<union> hold_value ''result'' k) \<union> H, out)
      (map Put (cstring_list ''str'' st @ value_list ''exception'' e @ value_list ''result'' k)) =
    Some (H, out)" for st e
    using assms(3,4) by (intro accepts_release_group) (auto simp: Int_Un_distrib2)
  then have "accepts (hold_cstring ''str'' st \<union> (hold_value ''exception'' e \<union> (hold_value ''result'' k \<union> H)), out)
      (free_cstring ''str'' st @ free_value ''exception'' e @ free_value ''result'' k) = Some (H, out)" for st e
    by (simp add: free_as_puts Un_assoc)
  then show ?thesis
    unfolding take_error_def using assms(1-4)
    by (intro triple_intros triple_value triple_cstring)
      (auto intro!: triple_ret assms(5) simp: same_ctx_def split: option.split)
qed

text \<open>The outcome of \<open>hbf_qjs_eval_module\<close> for a usable context and a script.\<close>

definition evaluated :: "resource set \<Rightarrow> event list \<Rightarrow> conn \<Rightarrow> qjs_ctx \<Rightarrow>
    (int \<times> qjs_ctx option) option \<Rightarrow> held \<Rightarrow> conn \<Rightarrow> bool" where
  "evaluated H out d c r s' d' \<longleftrightarrow> d' = d \<and>
     (case r of
        None \<Rightarrow> \<exists>k. s' = (hold_value ''result'' k \<union> H, out)
      | Some (code, x) \<Rightarrow> s' = (H, out) \<and> (\<exists>c'. x = Some c' \<and> same_ctx c c'))"

lemma triple_eval_module:
  assumes "Mutex \<in> H" "Context \<in> H" "\<And>v. Value v \<notin> H" "\<And>v. Cstring v \<notin> H"
  shows "triple (H, out) d (hbf_qjs_eval_module J (Some c) (Some src)) (evaluated H out d c)"
proof -
  have 1: "accepts (hold_value ''result'' k \<union> H, out) (free_value ''result'' k) = Some (H, out)" for k
    using accepts_release_group [of "value_list ''result'' k" _ H out] assms(3) by (simp add: free_as_puts)
  have same: "same_ctx c c'" if "same_ctx (c\<lparr>start_time_ms := t\<rparr>) c'" for c' t
    using that by (simp add: same_ctx_def)
  show ?thesis
    unfolding hbf_qjs_eval_module_def using assms
    by (auto intro!: triple_intros triple_value triple_take_error split: option.split simp: 1 evaluated_def
        dest!: same) (auto simp: same_ctx_def)
qed

section \<open>The life of a context\<close>

text \<open>
  C22. Creating a QuickJS context and destroying what was created is neutral, in each of the
  three ways the program creates one and whatever allocation or open fails on the way: nothing
  stays allocated, nothing is given back twice, and the runtime goes after the context.
\<close>

theorem context_lifecycle:
  assumes "run_state (State_Monad.bind (hbf_qjs_ctx_create_internal J cfg db own) hbf_qjs_ctx_destroy) w = ((), w')"
  shows "\<exists>es. trace w' = trace w @ es \<and> accepts ({Mutex}, out) es = Some ({Mutex}, out) \<and> dbc w' = dbc w"
proof -
  have "triple s' d' (hbf_qjs_ctx_destroy x) (\<lambda>_ s'' d''. s'' = ({Mutex}, out) \<and> d'' = d)"
    if "created_ctx own out d x s' d'" for x s' d' d
  proof (cases x)
    case None
    with that show ?thesis by (auto intro: triple_ret simp: hbf_qjs_ctx_destroy_def created_ctx_def)
  next
    case (Some c)
    with that have c: "has_ctx c" "has_rt c" "own_db c \<longrightarrow> ctx_db c \<noteq> Null_db"
      and s: "s' = ((if own_db c then {Own_db} else {}) \<union> engine_held, out)" "d' = d"
      by (simp_all add: created_ctx_def)
    show ?thesis unfolding Some s
      using triple_destroy [OF c, of "{}"] by simp
  qed
  then have "triple ({Mutex}, out) d (State_Monad.bind (hbf_qjs_ctx_create_internal J cfg db own) hbf_qjs_ctx_destroy)
      (\<lambda>_ s'' d''. s'' = ({Mutex}, out) \<and> d'' = d)" for d
    by (intro triple_bind triple_conseq [OF triple_create]) blast
  with assms show ?thesis unfolding triple_def by blast
qed

theorem context_lifecycle_witness:
  "\<exists>w' es. run_state (State_Monad.bind (hbf_qjs_ctx_create \<lparr>works = \<lambda>_. True, kind = \<lambda>_. K_other,
       text_of = \<lambda>_. None, time = int, job = \<lambda>_ _. 0, new_class_id = Suc\<rparr> (snd (hbf_qjs_init 64 5000 g_qjs_config))) hbf_qjs_ctx_destroy)
     \<lparr>trace = [Get Mutex], calls = 0, dbc = fresh_conn, response_class = 0\<rparr> = ((), w') \<and>
     trace w' = Get Mutex # es \<and> accepts ({Mutex}, []) es = Some ({Mutex}, [])"
proof -
  let ?m = "State_Monad.bind (hbf_qjs_ctx_create \<lparr>works = \<lambda>_. True, kind = \<lambda>_. K_other,
       text_of = \<lambda>_. None, time = int, job = \<lambda>_ _. 0, new_class_id = Suc\<rparr> (snd (hbf_qjs_init 64 5000 g_qjs_config))) hbf_qjs_ctx_destroy"
  let ?w = "\<lparr>trace = [Get Mutex], calls = 0, dbc = fresh_conn, response_class = 0\<rparr>"
  obtain u w' where run: "run_state ?m ?w = (u, w')" by (rule prod.exhaust)
  then have run: "run_state ?m ?w = ((), w')" by simp
  from context_lifecycle [OF run [unfolded hbf_qjs_ctx_create_def], of "[]"] run show ?thesis by auto
qed

section \<open>What an evaluation returns\<close>

lemma run_jobs_least:
  "run_jobs st = (if \<exists>k. \<not> 0 < st k then Some (st (LEAST k. \<not> 0 < st k)) else None)"
proof -
  have it: "(Suc ^^ k) 0 = k" for k by (induction k) auto
  show ?thesis by (simp add: run_jobs_def while_option_def it)
qed

lemma run_jobs_iff:
  "run_jobs st = Some v \<longleftrightarrow> (\<exists>k. st k = v \<and> v \<le> 0 \<and> (\<forall>j < k. 0 < st j))"
proof
  assume v: "run_jobs st = Some v"
  then obtain k where "\<not> 0 < st k" by (auto simp: run_jobs_least split: if_splits)
  define m where "m = (LEAST k. \<not> 0 < st k)"
  have "\<not> 0 < st m" unfolding m_def by (rule LeastI) fact
  moreover have "\<forall>j < m. 0 < st j"
    unfolding m_def by (intro allI impI) (drule not_less_Least, erule notnotD)
  moreover have "st m = v" using v unfolding run_jobs_least m_def [symmetric] by (simp split: if_splits)
  ultimately show "\<exists>k. st k = v \<and> v \<le> 0 \<and> (\<forall>j < k. 0 < st j)" by (intro exI [of _ m]) simp
next
  assume "\<exists>k. st k = v \<and> v \<le> 0 \<and> (\<forall>j < k. 0 < st j)"
  then obtain k where k: "st k = v" "v \<le> 0" "\<forall>j < k. 0 < st j" by blast
  then have "(LEAST k. \<not> 0 < st k) = k"
    by (intro Least_equality) (simp, meson not_less)
  moreover have "\<exists>k. \<not> 0 < st k" using k by (intro exI [of _ k]) simp
  ultimately show "run_jobs st = Some v" using k(1) by (simp add: run_jobs_least)
qed

lemma run_jobs_None: "run_jobs st = None \<longleftrightarrow> (\<forall>k. 0 < st k)"
  by (simp add: run_jobs_least)

lemma run_js_simps:
  "run_state next_js w = (calls w, w\<lparr>calls := Suc (calls w)\<rparr>)"
  "run_state (hbf_qjs_get_time_ms J) w = (time J (calls w), w\<lparr>calls := Suc (calls w)\<rparr>)"
  "fst (run_state (js_value J nm) w) = kind J (calls w)"
  "calls (snd (run_state (js_value J nm) w)) = Suc (calls w)"
  by (simp_all add: next_js_def hbf_qjs_get_time_ms_def js_value_def emit_def)

lemma take_error_ctx:
  assumes "run_state (take_error J fb k c) w = (c', w')"
  shows "start_time_ms c' = start_time_ms c \<and>
    error_buf c' = (case text_of J (Suc (calls w)) of
      Some s \<Rightarrow> take 511 s
    | None \<Rightarrow> (case fb of None \<Rightarrow> error_buf c | Some m \<Rightarrow> take 511 m))"
proof -
  obtain e w1 where 1: "run_state (js_value J ''exception'') w = (e, w1)" by (rule prod.exhaust)
  have "calls w1 = Suc (calls w)" using run_js_simps(4) [of J "''exception''" w] 1 by simp
  moreover obtain st w2 where 2: "run_state (js_cstring J ''str'') w1 = (st, w2)" by (rule prod.exhaust)
  moreover have "st = text_of J (calls w1)"
    using 2 by (auto simp: js_cstring_def next_js_def emit_def split: option.splits)
  ultimately show ?thesis
    using assms
    by (auto simp: take_error_def 1 2 emit_def snprintf_s_def split: option.splits)
qed



end
