(* ===== verification/Handler.thy ===== *)
theory Handler
  imports Engine Response Request
begin

text \<open>
  hbf/http/handler.c: \<open>hbf_qjs_request_handler\<close>, run by a worker thread for every request that
  is neither for a static file nor the health check. The script of the application (what
  \<open>app.handle\<close> and the jobs after it do to the response and to the database) is arbitrary.
\<close>

section \<open>Outcomes\<close>

text \<open>The status code returned, a job queue that never drains, or undefined behaviour in the
  response object.\<close>

datatype outcome = Status int | Hangs | Undefined

record app_env =
  script :: "nat \<Rightarrow> call list"
  db_effect :: "nat \<Rightarrow> conn \<Rightarrow> conn"

definition lift_db :: "'a dbm \<Rightarrow> 'a js" where
  "lift_db m = State (\<lambda>w. case run_state m (dbc w) of (x, s) \<Rightarrow> (x, w\<lparr>dbc := s\<rparr>))"

text \<open>What a run of the application's code does to the database.\<close>

definition run_script_db :: "app_env \<Rightarrow> nat js" where
  "run_script_db A = do {
     n \<leftarrow> next_js;
     w \<leftarrow> State_Monad.get;
     _ \<leftarrow> State_Monad.set (w\<lparr>dbc := db_effect A n (dbc w)\<rparr>);
     ret n
   }"

text \<open>The end of every early exit: destroy the context, unlock, send the error.\<close>

definition fail_with :: "event list \<Rightarrow> qjs_ctx option \<Rightarrow> int \<Rightarrow> outcome js" where
  "fail_with cleanup qjs code = do {
     _ \<leftarrow> emit cleanup;
     _ \<leftarrow> hbf_qjs_ctx_destroy qjs;
     _ \<leftarrow> emit [Put Mutex, Reply code];
     ret (Status code)
   }"

section \<open>The handler, from the back\<close>

text \<open>After \<open>JS_Call\<close> and the jobs: an exception, or the response.\<close>

definition finish_exception ::
    "js_env \<Rightarrow> qjs_ctx option \<Rightarrow> js_kind \<Rightarrow> js_kind \<Rightarrow> js_kind \<Rightarrow> js_kind \<Rightarrow> outcome js" where
  "finish_exception J qjs global app handle_func result = do {
     exception \<leftarrow> js_value J ''exception'';
     err_str \<leftarrow> js_cstring J ''err_str'';
     stack \<leftarrow> js_value J ''stack'';
     message \<leftarrow> js_value J ''message'';
     message_str \<leftarrow> (if message \<noteq> K_undefined then js_cstring J ''message_str'' else ret None);
     stack_str \<leftarrow> (if stack \<noteq> K_undefined then js_cstring J ''stack_str'' else ret None);
     fail_with
       (free_value ''message'' message @ free_value ''stack'' stack @
        free_cstring ''message_str'' message_str @ free_cstring ''stack_str'' stack_str @
        free_cstring ''err_str'' err_str @ free_value ''exception'' exception @
        free_value ''result'' result @ free_value ''handle_func'' handle_func @ free_value ''app'' app @
        [Put (Value ''res''), Put (Value ''req'')] @ free_value ''global'' global @ [Put Response])
       qjs 500
   }"

definition finish_response ::
    "qjs_ctx option \<Rightarrow> js_kind \<Rightarrow> js_kind \<Rightarrow> js_kind \<Rightarrow> js_kind \<Rightarrow> hbf_response \<Rightarrow> outcome js" where
  "finish_response qjs global app handle_func result response = do {
     _ \<leftarrow> emit [Send (hbf_send_response response)];
     _ \<leftarrow> emit (free_value ''result'' result @ free_value ''handle_func'' handle_func @
       free_value ''app'' app @ [Put (Value ''res''), Put (Value ''req'')] @
       free_value ''global'' global @ [Put Response]);
     _ \<leftarrow> hbf_qjs_ctx_destroy qjs;
     _ \<leftarrow> emit [Put Mutex];
     ret (Status (status_code response))
   }"

text \<open>The call of \<open>app.handle(req, res)\<close> and the job queue.\<close>

definition call_app ::
    "js_env \<Rightarrow> app_env \<Rightarrow> qjs_ctx option \<Rightarrow> js_kind \<Rightarrow> js_kind \<Rightarrow> js_kind \<Rightarrow> hbf_response \<Rightarrow> outcome js" where
  "call_app J A qjs global app handle_func response = do {
     qjs1 \<leftarrow> (case qjs of None \<Rightarrow> ret None | Some c \<Rightarrow> do { c1 \<leftarrow> hbf_qjs_begin_exec J c; ret (Some c1) });
     n \<leftarrow> run_script_db A;
     (case run_calls (script A n) response of
        None \<Rightarrow> ret Undefined
      | Some response1 \<Rightarrow> do {
          result \<leftarrow> js_value J ''result'';
          k \<leftarrow> next_js;
          (case run_jobs (job J k) of
             None \<Rightarrow> ret Hangs
           | Some _ \<Rightarrow>
               if result = K_exception then finish_exception J qjs1 global app handle_func result
               else finish_response qjs1 global app handle_func result response1)
        })
   }"

text \<open>Looking up \<open>global.app.handle\<close>.\<close>

definition find_handle ::
    "js_env \<Rightarrow> app_env \<Rightarrow> qjs_ctx option \<Rightarrow> hbf_response \<Rightarrow> outcome js" where
  "find_handle J A qjs response = do {
     global \<leftarrow> js_value J ''global'';
     if global \<in> {K_exception, K_null, K_undefined}
     then fail_with [Put (Value ''res''), Put (Value ''req''), Put Response] qjs 500
     else do {
       app \<leftarrow> js_value J ''app'';
       let_rest \<leftarrow> ret (\<lambda>more. more @ free_value ''app'' app @
         [Put (Value ''res''), Put (Value ''req'')] @ free_value ''global'' global @ [Put Response]);
       if app = K_undefined then fail_with (let_rest []) qjs 503
       else if app = K_null then fail_with (let_rest []) qjs 503
       else do {
         handle_func \<leftarrow> js_value J ''handle_func'';
         if handle_func = K_undefined then fail_with (let_rest (free_value ''handle_func'' handle_func)) qjs 500
         else if handle_func \<noteq> K_function
         then fail_with (let_rest (free_value ''handle_func'' handle_func)) qjs 500
         else call_app J A qjs global app handle_func response
       }
     }
   }"

text \<open>The request and response objects. \<open>resp0\<close> is the uninitialised local variable.\<close>

definition make_objects ::
    "js_env \<Rightarrow> app_env \<Rightarrow> request_env \<Rightarrow> mg_request_info \<Rightarrow> hbf_response \<Rightarrow> qjs_ctx option \<Rightarrow> outcome js" where
  "make_objects J A RE ri resp0 qjs =
     (case hbf_qjs_create_request RE True (Some ri) of
        Req_Object _ \<Rightarrow> do {
          _ \<leftarrow> emit [Get (Value ''req'')];
          res \<leftarrow> js_works J;
          if \<not> res then fail_with [Put (Value ''req'')] qjs 500
          else do {
            _ \<leftarrow> emit [Get (Value ''res''), Get Response];
            find_handle J A qjs (hbf_qjs_create_response resp0)
          }
        }
      | _ \<Rightarrow> fail_with [] qjs 500)"

text \<open>Loading hbf/server.js from the database.\<close>

definition load_server ::
    "js_env \<Rightarrow> app_env \<Rightarrow> env \<Rightarrow> sqlite3_ptr \<Rightarrow> request_env \<Rightarrow> mg_request_info \<Rightarrow> hbf_response \<Rightarrow>
     qjs_ctx option \<Rightarrow> outcome js" where
  "load_server J A E g RE ri resp0 qjs = do {
     (rc, outs) \<leftarrow> lift_db (overlay_fs_read_file E g (Some ''hbf/server.js'') 1 (Some (None, 0)));
     (case outs of
        Some (Some js_data, js_size) \<Rightarrow> do {
          _ \<leftarrow> emit [Get Buffer];
          if rc \<noteq> 0 \<or> js_size = 0 then fail_with [] qjs 503
          else do {
            _ \<leftarrow> run_script_db A;
            r \<leftarrow> hbf_qjs_eval_module J qjs (Some (map char_of_byte js_data));
            (case r of
               None \<Rightarrow> ret Hangs
             | Some (code, qjs1) \<Rightarrow> do {
                 _ \<leftarrow> emit [Put Buffer];
                 if code \<noteq> 0 then fail_with [] qjs1 500
                 else make_objects J A RE ri resp0 qjs1
               })
          }
        }
      | _ \<Rightarrow> fail_with [] qjs 503)
   }"

text \<open>\<open>server_db\<close> is \<open>server ? server->db : NULL\<close>.\<close>

definition hbf_qjs_request_handler ::
    "js_env \<Rightarrow> app_env \<Rightarrow> env \<Rightarrow> qjs_config \<Rightarrow> sqlite3_ptr \<Rightarrow> sqlite3_ptr \<Rightarrow> request_env \<Rightarrow>
     mg_request_info option \<Rightarrow> hbf_response \<Rightarrow> outcome js" where
  "hbf_qjs_request_handler J A E cfg g server_db RE ri resp0 =
     (case ri of
        None \<Rightarrow> ret (Status 500)
      | Some info \<Rightarrow> do {
          _ \<leftarrow> emit [Get Mutex];
          qjs \<leftarrow> hbf_qjs_ctx_create_with_db J cfg server_db;
          (case qjs of
             None \<Rightarrow> do { _ \<leftarrow> emit [Put Mutex, Reply 500]; ret (Status 500) }
           | Some c \<Rightarrow>
               if \<not> hbf_qjs_get_js_context qjs then fail_with [] qjs 500
               else load_server J A E g RE info resp0 qjs)
        })"

end
