(* ===== verification/Handler_Props.thy ===== *)
theory Handler_Props
  imports Handler Engine_Props
begin

text \<open>
  What the request handler keeps of the resources it acquires: the trace of every request
  that is answered is accepted by the discipline of \<open>Js_Trace\<close>, whatever calls of QuickJS,
  SQLite and \<open>malloc\<close> fail.
\<close>

section \<open>The handler\<close>

definition answers :: "int \<Rightarrow> event \<Rightarrow> bool" where
  "answers code e \<longleftrightarrow> e = Reply code \<or> (\<exists>r. e = Send (hbf_send_response r) \<and> status_code r = code)"

text \<open>A request that is answered got one message and everything acquired has been given back,
  but \<open>B\<close>; one that hangs, or runs into undefined behaviour, still holds the mutex.\<close>

definition answered :: "resource set \<Rightarrow> event list \<Rightarrow> outcome \<Rightarrow> held \<Rightarrow> conn \<Rightarrow> bool" where
  "answered B out r s d \<longleftrightarrow>
     (case r of
        Status code \<Rightarrow> \<exists>e. s = (B, out @ [e]) \<and> answers code e
      | _ \<Rightarrow> Mutex \<in> fst s \<and> snd s = out)"

definition request_ctx :: "qjs_ctx \<Rightarrow> bool" where
  "request_ctx c \<longleftrightarrow> has_ctx c \<and> has_rt c \<and> \<not> own_db c"

lemma triple_fail_with:
  assumes "request_ctx c" "accepts (H, out) cleanup = Some (B \<union> engine_held, out)" "B \<subseteq> {Buffer}"
  shows "triple (H, out) d (fail_with cleanup (Some c) code) (answered B out)"
proof -
  have B: "B \<in> {{}, {Buffer}}" using assms(3) by auto
  have "triple (B \<union> engine_held, out) d (hbf_qjs_ctx_destroy (Some c)) Q"
    if "Q () (B \<union> {Mutex}, out) d" for Q
    using triple_destroy [of c B Q out d] assms(1,3) that by (simp add: request_ctx_def)
  moreover have "triple (B \<union> {Mutex}, out) d
      (State_Monad.bind (emit [Put Mutex, Reply code]) (\<lambda>_. ret (Status code))) (answered B out)"
    using B by (auto intro!: triple_intros simp: answered_def answers_def)
  ultimately have "triple (B \<union> engine_held, out) d (State_Monad.bind (hbf_qjs_ctx_destroy (Some c))
      (\<lambda>_. State_Monad.bind (emit [Put Mutex, Reply code]) (\<lambda>_. ret (Status code)))) (answered B out)"
    by (intro triple_bind) simp
  with assms(2) show ?thesis
    unfolding fail_with_def by (intro triple_bind triple_emit_case) simp
qed

text \<open>What is held once the objects of the request and of the application are there.\<close>

definition object_held :: "js_kind \<Rightarrow> js_kind \<Rightarrow> js_kind \<Rightarrow> resource set" where
  "object_held global app handle_func = hold_value ''handle_func'' handle_func \<union>
     (hold_value ''app'' app \<union> (hold_value ''global'' global \<union> {Response, Value ''res'', Value ''req''}))"

lemma object_held_engine: "object_held g a h \<inter> engine_held = {}"
  by (auto simp: object_held_def engine_held_def)

lemma object_held_mem [simp]:
  "Mutex \<notin> object_held g a h" "Context \<notin> object_held g a h" "Cstring c \<notin> object_held g a h"
  "Value ''result'' \<notin> object_held g a h" "Value ''exception'' \<notin> object_held g a h"
  "Value ''stack'' \<notin> object_held g a h" "Value ''message'' \<notin> object_held g a h"
  by (simp_all add: object_held_def)

abbreviation object_list :: "js_kind \<Rightarrow> js_kind \<Rightarrow> js_kind \<Rightarrow> resource list" where
  "object_list g a h \<equiv> value_list ''handle_func'' h @ value_list ''app'' a @
     [Value ''res'', Value ''req''] @ value_list ''global'' g @ [Response]"

lemma accepts_release:
  "accepts ((hold_value ''result'' r \<union> object_held g a h) \<union> engine_held, out)
     (map Put (value_list ''result'' r @ object_list g a h)) = Some (engine_held, out)"
  by (rule accepts_release_group)
    (auto simp: object_held_def Int_Un_distrib Int_Un_distrib2 disjoint_iff engine_held_def)

lemma triple_destroy_request:
  assumes "request_ctx c" "Q () ({Mutex}, out) d"
  shows "triple (engine_held, out) d (hbf_qjs_ctx_destroy (Some c)) Q"
  using triple_destroy [of c "{}" Q out d] assms by (simp add: request_ctx_def)

text \<open>A string that is asked for only in one case.\<close>

lemma triple_cstring_if:
  assumes "Cstring nm \<notin> H" "Mutex \<in> H" "Context \<in> H" "\<And>o'. Q o' (hold_cstring nm o' \<union> H, out) d"
  shows "triple (H, out) d (if b then js_cstring J nm else ret None) Q"
  using assms assms(4) [of None]
  by (cases b) (auto intro!: triple_cstring triple_ret simp: hold_cstring_def)

lemma triple_finish_response:
  assumes "request_ctx c"
  shows "triple ((hold_value ''result'' r \<union> object_held g a h) \<union> engine_held, out) d
    (finish_response (Some c) g a h r resp) (answered {} out)"
proof -
  let ?out = "out @ [Send (hbf_send_response resp)]"
  have "triple (engine_held, ?out) d (State_Monad.bind (hbf_qjs_ctx_destroy (Some c))
      (\<lambda>_. State_Monad.bind (emit [Put Mutex]) (\<lambda>_. ret (Status (status_code resp))))) (answered {} out)"
    by (rule triple_bind, rule triple_destroy_request [OF assms], rule triple_bind, rule triple_emit_case)
      (auto intro!: triple_ret simp: answered_def answers_def)
  moreover have "accepts ((hold_value ''result'' r \<union> object_held g a h) \<union> engine_held, ?out)
      (free_value ''result'' r @ free_value ''handle_func'' h @ free_value ''app'' a @
       [Put (Value ''res''), Put (Value ''req'')] @ free_value ''global'' g @ [Put Response]) =
      Some (engine_held, ?out)"
    using accepts_release [of r g a h ?out] by (simp add: free_as_puts)
  ultimately show ?thesis
    unfolding finish_response_def
    by (intro triple_bind triple_emit_case) (auto intro!: triple_bind triple_emit_case)
qed

lemma triple_finish_exception:
  assumes "request_ctx c"
  shows "triple ((hold_value ''result'' r \<union> object_held g a h) \<union> engine_held, out) d
    (finish_exception J (Some c) g a h r) (answered {} out)"
proof -
  let ?H = "(hold_value ''result'' r \<union> object_held g a h) \<union> engine_held"
  have fail: "triple (hold_cstring ''stack_str'' ss \<union> (hold_cstring ''message_str'' ms \<union>
      (hold_value ''message'' m \<union> (hold_value ''stack'' st \<union> (hold_cstring ''err_str'' es \<union>
      (hold_value ''exception'' e \<union> ?H))))), out) d
     (fail_with (free_value ''message'' m @ free_value ''stack'' st @
        free_cstring ''message_str'' ms @ free_cstring ''stack_str'' ss @
        free_cstring ''err_str'' es @ free_value ''exception'' e @
        free_value ''result'' r @ free_value ''handle_func'' h @ free_value ''app'' a @
        [Put (Value ''res''), Put (Value ''req'')] @ free_value ''global'' g @ [Put Response])
      (Some c) 500) (answered {} out)" for e es st m ms ss
  proof (rule triple_fail_with [OF assms])
    have "accepts ((hold_cstring ''stack_str'' ss \<union> hold_cstring ''message_str'' ms \<union>
      hold_value ''message'' m \<union> hold_value ''stack'' st \<union> hold_cstring ''err_str'' es \<union>
      hold_value ''exception'' e \<union> hold_value ''result'' r \<union> object_held g a h) \<union> engine_held, out)
     (map Put (value_list ''message'' m @ value_list ''stack'' st @ cstring_list ''message_str'' ms @
       cstring_list ''stack_str'' ss @ cstring_list ''err_str'' es @ value_list ''exception'' e @
       value_list ''result'' r @ object_list g a h)) = Some (engine_held, out)"
      by (rule accepts_release_group)
        (auto simp: object_held_def Int_Un_distrib Int_Un_distrib2 disjoint_iff engine_held_def)
    then show "accepts (hold_cstring ''stack_str'' ss \<union> (hold_cstring ''message_str'' ms \<union>
      (hold_value ''message'' m \<union> (hold_value ''stack'' st \<union> (hold_cstring ''err_str'' es \<union>
      (hold_value ''exception'' e \<union> ?H))))), out)
     (free_value ''message'' m @ free_value ''stack'' st @
        free_cstring ''message_str'' ms @ free_cstring ''stack_str'' ss @
        free_cstring ''err_str'' es @ free_value ''exception'' e @
        free_value ''result'' r @ free_value ''handle_func'' h @ free_value ''app'' a @
        [Put (Value ''res''), Put (Value ''req'')] @ free_value ''global'' g @ [Put Response]) =
      Some ({} \<union> engine_held, out)"
      by (simp add: free_as_puts Un_assoc)
  qed simp
  show ?thesis
    unfolding finish_exception_def
    by (intro triple_bind triple_value triple_cstring triple_cstring_if fail) (auto simp: object_held_def)
qed

lemma triple_script_db: "(\<And>n d'. Q n s d') \<Longrightarrow> triple s d (run_script_db A) Q"
  by (auto simp: triple_def run_script_db_def next_js_def simp del: split_paired_Ex)

lemma triple_call_app:
  assumes "request_ctx c"
  shows "triple (object_held g a h \<union> engine_held, out) d (call_app J A (Some c) g a h resp) (answered {} out)"
proof -
  have c: "request_ctx (c\<lparr>start_time_ms := t\<rparr>)" for t using assms by (simp add: request_ctx_def)
  show ?thesis
    unfolding call_app_def hbf_qjs_begin_exec_def
    by (auto intro!: triple_intros triple_script_db triple_value
        triple_finish_exception [OF c, unfolded Un_assoc] triple_finish_response [OF c, unfolded Un_assoc]
        split: option.split simp: answered_def)
qed

text \<open>The objects without the handler function, as \<open>find_handle\<close> builds them up.\<close>

lemma triple_find_handle:
  assumes "request_ctx c"
  shows "triple ({Response, Value ''res'', Value ''req''} \<union> engine_held, out) d
    (find_handle J A (Some c) resp) (answered {} out)"
proof -
  let ?O = "{Response, Value ''res'', Value ''req''}"
  have none: "accepts (?O \<union> engine_held, out) (map Put [Value ''res'', Value ''req'', Response]) =
      Some (engine_held, out)"
    by (rule accepts_release_group) auto
  have app: "accepts ((hold_value ''app'' a \<union> hold_value ''global'' g \<union> ?O) \<union> engine_held, out)
      (map Put (value_list ''app'' a @ [Value ''res'', Value ''req''] @ value_list ''global'' g @ [Response])) =
      Some (engine_held, out)" for a g
    by (rule accepts_release_group) (auto simp: Int_Un_distrib Int_Un_distrib2 disjoint_iff engine_held_def)
  have handle: "accepts ((hold_value ''handle_func'' h \<union> hold_value ''app'' a \<union> hold_value ''global'' g \<union> ?O) \<union>
      engine_held, out) (map Put (object_list g a h)) = Some (engine_held, out)" for h a g
    by (rule accepts_release_group) (auto simp: Int_Un_distrib Int_Un_distrib2 disjoint_iff engine_held_def)
  have quiet: "hold_value nm K_exception = {}" "hold_value nm K_null = {}" "hold_value nm K_undefined = {}"
    for nm by (simp_all add: hold_value_def counted_def)
  note call = triple_call_app [OF assms, unfolded object_held_def Un_assoc]
  have fail: "triple (X \<union> engine_held, out) d (fail_with es (Some c) code) (answered {} out)"
    if "accepts (X \<union> engine_held, out) es = Some (engine_held, out)" for X es code
    using triple_fail_with [OF assms, of _ out es "{}"] that by simp
  have fail0: "triple (hold_value ''global'' g \<union> (?O \<union> engine_held), out) d
      (fail_with [Put (Value ''res''), Put (Value ''req''), Put Response] (Some c) code) (answered {} out)"
    if "g \<in> {K_exception, K_null, K_undefined}" for g code
  proof -
    have "hold_value ''global'' g = {}" using that quiet by auto
    then show ?thesis using fail [OF none] by (simp only: Un_empty_left list.map)
  qed
  have fail1: "triple (hold_value ''app'' a \<union> (hold_value ''global'' g \<union> (?O \<union> engine_held)), out) d
      (fail_with ([] @ free_value ''app'' a @ [Put (Value ''res''), Put (Value ''req'')] @
        free_value ''global'' g @ [Put Response]) (Some c) code) (answered {} out)" for a g code
    using fail [OF app [of a g]] by (simp only: free_as_puts Un_assoc list.map map_append append_Nil)
  have fail2: "triple (hold_value ''handle_func'' h \<union> (hold_value ''app'' a \<union>
        (hold_value ''global'' g \<union> (?O \<union> engine_held))), out) d
      (fail_with (free_value ''handle_func'' h @ free_value ''app'' a @
        [Put (Value ''res''), Put (Value ''req'')] @ free_value ''global'' g @ [Put Response]) (Some c) code)
      (answered {} out)" for h a g code
    using fail [OF handle [of h a g]] by (simp only: free_as_puts Un_assoc list.map map_append)
  show ?thesis
    unfolding find_handle_def
    apply (rule triple_bind, rule triple_value)
       apply simp_all[3]
    apply (rule triple_if)
     apply (rule fail0, assumption)
    apply (rule triple_bind, rule triple_value)
       apply simp_all[3]
    apply (rule triple_bind, rule triple_ret, rule triple_if)
     apply (rule fail1)
    apply (rule triple_if, rule fail1)
    apply (rule triple_bind, rule triple_value)
       apply simp_all[3]
    apply (rule triple_if, rule fail2)
    apply (rule triple_if, rule fail2)
    apply (rule call)
    done
qed

lemma triple_make_objects:
  assumes "request_ctx c"
  shows "triple (engine_held, out) d (make_objects J A RE ri resp0 (Some c)) (answered {} out)"
proof -
  have fail: "triple (X \<union> engine_held, out) d (fail_with es (Some c) code) (answered {} out)"
    if "accepts (X \<union> engine_held, out) es = Some (engine_held, out)" for X es code
    using triple_fail_with [OF assms, of _ out es "{}"] that by simp
  have fail0: "triple (engine_held, out) d (fail_with [] (Some c) code) (answered {} out)" for code
    using fail [of "{}" "[]"] by simp
  have fail1: "triple (insert (Value ''req'') engine_held, out) d
      (fail_with [Put (Value ''req'')] (Some c) code) (answered {} out)" for code
    using fail [of "{Value ''req''}" "[Put (Value ''req'')]"] accepts_release_group
      [of "[Value ''req'']" "{Value ''req''}" engine_held out] by simp
  have find: "triple (insert Response (insert (Value ''res'') (insert (Value ''req'') engine_held)), out) d
      (find_handle J A (Some c) resp) (answered {} out)" for resp
    using triple_find_handle [OF assms] by simp
  show ?thesis
    unfolding make_objects_def
    by (auto intro!: triple_intros fail0 fail1 find split: created.split)
qed

text \<open>The buffer of an empty server.js is not freed.\<close>

definition empty_server :: "env \<Rightarrow> sqlite3_ptr \<Rightarrow> conn \<Rightarrow> bool" where
  "empty_server E g d \<longleftrightarrow>
     fst (run_state (overlay_fs_read_file E g (Some ''hbf/server.js'') 1 (Some (None, 0))) d) =
       (0, Some (Some [], 0))"

lemma triple_lift_db:
  "Q (fst (run_state m d)) s (snd (run_state m d)) \<Longrightarrow> triple s d (lift_db m) Q"
  by (auto simp: triple_def lift_db_def simp del: split_paired_Ex split: prod.splits)

lemma triple_load_server:
  assumes "request_ctx c"
  shows "triple (engine_held, out) d (load_server J A E g RE ri resp0 (Some c))
    (answered (if empty_server E g d then {Buffer} else {}) out)"
proof -
  let ?m = "overlay_fs_read_file E g (Some ''hbf/server.js'') 1 (Some (None, 0))"
  obtain rc outs where read: "fst (run_state ?m d) = (rc, outs)" by (rule prod.exhaust)
  have fail: "triple (X \<union> engine_held, out) d' (fail_with [] (Some c') code) (answered X out)"
    if "request_ctx c'" "X \<subseteq> {Buffer}" for X d' c' code
    using that by (intro triple_fail_with) simp_all
  have fail0: "triple (engine_held, out) d' (fail_with [] (Some c') code) (answered {} out)"
    if "request_ctx c'" for d' c' code
    using fail [OF that, of "{}"] by simp
  have fail1: "triple (insert Buffer engine_held, out) d' (fail_with [] (Some c) code) (answered {Buffer} out)"
    for d' code
    using fail [OF assms, of "{Buffer}"] by simp
  show ?thesis
  proof (cases "\<exists>js sz. outs = Some (Some js, sz)")
    case False
    then have "\<not> empty_server E g d" using read by (auto simp: empty_server_def)
    with False show ?thesis
      unfolding load_server_def
      by (auto intro!: triple_bind triple_lift_db fail0 [OF assms] simp: read split: option.split)
  next
    case True
    then obtain js sz where outs: "outs = Some (Some js, sz)" by blast
    with read read_file_result [of E g "''hbf/server.js''" 1 0 d] have rc: "rc = 0" "sz = length js"
      by auto
    have empty: "empty_server E g d \<longleftrightarrow> js = []" using read outs rc by (simp add: empty_server_def)
    have eval: "triple (insert Buffer engine_held, out) d' (State_Monad.bind
        (hbf_qjs_eval_module J (Some c) (Some src)) (\<lambda>r. case r of None \<Rightarrow> ret Hangs
        | Some (code, qjs1) \<Rightarrow> State_Monad.bind (emit [Put Buffer]) (\<lambda>_.
            if code \<noteq> 0 then fail_with [] qjs1 500 else make_objects J A RE ri resp0 qjs1)))
        (answered {} out)" for d' src
    proof (rule triple_bind, rule triple_conseq [OF triple_eval_module])
      fix r s' d''
      assume ev: "evaluated (insert Buffer engine_held) out d' c r s' d''"
      have ctx: "request_ctx c'" if "same_ctx c c'" for c'
        using that assms by (simp add: request_ctx_def same_ctx_def)
      show "triple s' d'' (case r of None \<Rightarrow> ret Hangs
        | Some (code, qjs1) \<Rightarrow> State_Monad.bind (emit [Put Buffer]) (\<lambda>_.
            if code \<noteq> 0 then fail_with [] qjs1 500 else make_objects J A RE ri resp0 qjs1)) (answered {} out)"
        using ev by (auto simp: evaluated_def answered_def loose_not_needed split: option.splits
            intro!: triple_intros fail0 triple_make_objects ctx)
    qed simp_all
    show ?thesis
      unfolding load_server_def using eval fail1
      by (auto intro!: triple_bind [of _ _ "lift_db _"] triple_bind [of _ _ "emit _"] triple_lift_db
          triple_emit_case triple_if triple_bind [of _ _ "run_script_db _"] triple_script_db
          simp: read outs rc empty)
  qed
qed

lemma triple_handler:
  "triple ({}, out) d (hbf_qjs_request_handler J A E cfg g server_db RE (Some ri) resp0)
     (\<lambda>r s' d'. \<exists>B \<subseteq> {Buffer}. (B = {Buffer} \<longrightarrow> empty_server E g d) \<and> answered B out r s' d')"
proof -
  let ?Q = "\<lambda>r s' d'. \<exists>B \<subseteq> {Buffer}. (B = {Buffer} \<longrightarrow> empty_server E g d) \<and> answered B out r s' d'"
  have failed: "triple ({Mutex}, out) d (State_Monad.bind (emit [Put Mutex, Reply 500])
      (\<lambda>_. ret (Status 500))) ?Q"
    by (auto intro!: triple_intros exI [of _ "{}"] simp: answered_def answers_def)
  have load: "triple (engine_held, out) d (load_server J A E g RE ri resp0 (Some c)) ?Q"
    if "request_ctx c" for c
    by (rule triple_conseq [OF triple_load_server [OF that]],
      rule exI [of _ "if empty_server E g d then {Buffer} else {}"]) simp
  have rest: "triple s' d' (case qjs of
        None \<Rightarrow> State_Monad.bind (emit [Put Mutex, Reply 500]) (\<lambda>_. ret (Status 500))
      | Some c \<Rightarrow> if \<not> hbf_qjs_get_js_context qjs then fail_with [] qjs 500
          else load_server J A E g RE ri resp0 qjs) ?Q"
    if "created_ctx False out d qjs s' d'" for qjs s' d'
  proof (cases qjs)
    case None
    with that have "s' = ({Mutex}, out)" "d' = d" by (simp_all add: created_ctx_def)
    with None failed show ?thesis by simp
  next
    case (Some c)
    with that have "s' = (engine_held, out)" "d' = d" "request_ctx c" and c: "has_ctx c"
      by (simp_all add: created_ctx_def request_ctx_def)
    with Some load [of c] show ?thesis by (simp add: hbf_qjs_get_js_context_def)
  qed
  have "accepts ({}, out) [Get Mutex] = Some ({Mutex}, out)" by simp
  then show ?thesis
    unfolding hbf_qjs_request_handler_def option.case
    apply (intro triple_bind [of _ _ "emit _"] triple_emit)
     apply assumption
    apply (rule triple_bind, rule triple_conseq [OF triple_create_with_db])
    apply (erule rest)
    done
qed

lemma handler_outcome:
  assumes "run_state (hbf_qjs_request_handler J A E cfg g server_db RE ri resp0) w = (r, w')"
  shows "\<exists>es H out. trace w' = trace w @ es \<and> accepts ({}, []) es = Some (H, out) \<and>
    (case r of
       Status code \<Rightarrow> H \<subseteq> {Buffer} \<and> (H = {Buffer} \<longrightarrow> empty_server E g (dbc w)) \<and>
         (if ri = None then code = 500 \<and> out = [] else \<exists>e. out = [e] \<and> answers code e)
     | _ \<Rightarrow> Mutex \<in> H \<and> out = [])"
proof (cases ri)
  case None
  then have "trace w' = trace w" "r = Status 500"
    using assms by (auto simp: hbf_qjs_request_handler_def)
  with None show ?thesis by auto
next
  case (Some info)
  obtain es s' where es: "trace w' = trace w @ es" "accepts ({}, []) es = Some s'"
    and B: "\<exists>B \<subseteq> {Buffer}. (B = {Buffer} \<longrightarrow> empty_server E g (dbc w)) \<and> answered B [] r s' (dbc w')"
    using triple_handler [of "[]" "dbc w" J A E cfg g server_db RE info resp0] assms
    unfolding triple_def Some by (elim allE impE) (rule refl, assumption, blast)
  obtain H out where s': "s' = (H, out)" by (rule prod.exhaust)
  have "case r of
       Status code \<Rightarrow> H \<subseteq> {Buffer} \<and> (H = {Buffer} \<longrightarrow> empty_server E g (dbc w)) \<and>
         (if ri = None then code = 500 \<and> out = [] else \<exists>e. out = [e] \<and> answers code e)
     | _ \<Rightarrow> Mutex \<in> H \<and> out = []"
    using B unfolding answered_def s' by (cases r) (auto simp: Some)
  with es s' show ?thesis by blast
qed

text \<open>
  C4. Whatever calls of QuickJS, SQLite, CivetWeb and \<open>malloc\<close> fail and whatever the
  application does, a request that is answered leaves nothing behind: its trace takes and gives
  back the runtime, the context, every JavaScript value and string, the response and the
  mutex in an order that never uses a resource outside its lifetime and touches QuickJS only
  under the mutex, and the client gets exactly one message, with the status code returned. The
  one exception is the buffer of an empty hbf/server.js. A request whose job queue never
  drains keeps the mutex for ever.
\<close>

theorem handler_releases_everything:
  assumes "run_state (hbf_qjs_request_handler J A E cfg g server_db RE ri resp0) w = (r, w')"
  shows "\<exists>es H out. trace w' = trace w @ es \<and> accepts ({}, []) es = Some (H, out) \<and>
    (case r of
       Status code \<Rightarrow> H \<subseteq> {Buffer} \<and> (H = {Buffer} \<longrightarrow> empty_server E g (dbc w)) \<and>
         (if ri = None then code = 500 \<and> out = [] else \<exists>e. out = [e] \<and> answers code e)
     | _ \<Rightarrow> Mutex \<in> H \<and> out = [])"
  by (rule handler_outcome [OF assms])

text \<open>Before the global handle is set, a request is turned down.\<close>

definition plain_js :: js_env where
  "plain_js = \<lparr>works = \<lambda>_. True, kind = \<lambda>_. K_other, text_of = \<lambda>_. None, time = int, job = \<lambda>_ _. 0, new_class_id = Suc\<rparr>"

definition idle_app :: app_env where
  "idle_app = \<lparr>script = \<lambda>_. [], db_effect = \<lambda>_ c. c\<rparr>"

definition start_world :: world where
  "start_world = \<lparr>trace = [], calls = 0, dbc = fresh_conn, response_class = 0\<rparr>"

definition no_response :: hbf_response where
  "no_response = \<lparr>status_code = 0, headers = [], body = None, sent = False, lost = 0\<rparr>"

theorem handler_releases_everything_witness:
  "\<exists>w' es H out. run_state (hbf_qjs_request_handler plain_js idle_app quiet_env
       (snd (hbf_qjs_init 64 5000 g_qjs_config)) Null_db Main_db sample_request_env (Some sample_request) no_response) start_world =
     (Status 503, w') \<and> trace w' = es \<and> accepts ({}, []) es = Some (H, out) \<and> H \<subseteq> {Buffer} \<and>
     (\<exists>e. out = [e] \<and> answers 503 e)"
proof -
  let ?m = "hbf_qjs_request_handler plain_js idle_app quiet_env
       (snd (hbf_qjs_init 64 5000 g_qjs_config)) Null_db Main_db sample_request_env (Some sample_request) no_response"
  have r: "fst (run_state ?m start_world) = Status 503"
    by (simp add: hbf_qjs_request_handler_def hbf_qjs_ctx_create_with_db_def hbf_qjs_ctx_create_internal_def
        hbf_qjs_init_def g_qjs_config_def js_works_def next_js_def emit_def hbf_qjs_get_time_ms_def
        hbf_qjs_init_db_module_def hbf_qjs_init_console_module_def init_module_def js_value_def
        hbf_qjs_get_js_context_def load_server_def lift_db_def overlay_fs_read_file_def fail_with_def
        hbf_qjs_ctx_destroy_def init_response_class_def plain_js_def)
  obtain x w' where run: "run_state ?m start_world = (x, w')" by (rule prod.exhaust)
  with r have "run_state ?m start_world = (Status 503, w')" by simp
  from handler_releases_everything [OF this] obtain es H out where "trace w' = es"
    "accepts ({}, []) es = Some (H, out)" "H \<subseteq> {Buffer}" "\<exists>e. out = [e] \<and> answers 503 e"
    by (auto simp: start_world_def)
  with \<open>run_state ?m start_world = (Status 503, w')\<close> show ?thesis by blast
qed

end
