(* ===== verification/Handler_Success.thy ===== *)
theory Handler_Success
  imports Handler_Props
begin

text \<open>
  The request that goes well: what the handler answers when no call fails on the way to the
  response, and which calls of QuickJS that depends on.
\<close>

section \<open>Running the primitives\<close>

definition tick_js :: "nat \<Rightarrow> event list \<Rightarrow> world \<Rightarrow> world" where
  "tick_js k es w = w\<lparr>calls := calls w + k, trace := trace w @ es\<rparr>"

lemma tick_js_simps [simp]:
  "calls (tick_js k es w) = calls w + k" "dbc (tick_js k es w) = dbc w"
  "trace (tick_js k es w) = trace w @ es"
  "tick_js k es (tick_js j fs w) = tick_js (j + k) (fs @ es) w"
  "(tick_js k es w)\<lparr>dbc := d\<rparr> = tick_js k es (w\<lparr>dbc := d\<rparr>)"
  "(tick_js k es w)\<lparr>response_class := i\<rparr> = tick_js k es (w\<lparr>response_class := i\<rparr>)"
  by (simp_all add: tick_js_def)

lemma run_js [simp]:
  "run_state (emit es) w = ((), tick_js 0 es w)"
  "run_state next_js w = (calls w, tick_js 1 [] w)"
  "run_state (js_works J) w = (works J (calls w), tick_js 1 [] w)"
  "run_state (js_value J nm) w = (kind J (calls w), tick_js 1 (value_got nm (kind J (calls w))) w)"
  "run_state (hbf_qjs_get_time_ms J) w = (time J (calls w), tick_js 1 [] w)"
  "run_state (init_response_class J) w =
     ((), w\<lparr>response_class := hbf_qjs_init_response_class (new_class_id J) (response_class w)\<rparr>)"
  "run_state (lift_db m) w = (fst (run_state m (dbc w)), w\<lparr>dbc := snd (run_state m (dbc w))\<rparr>)"
  "run_state (run_script_db A) w = (calls w, tick_js 1 [] (w\<lparr>dbc := db_effect A (calls w) (dbc w)\<rparr>))"
  by (simp_all add: emit_def next_js_def js_works_def js_value_def hbf_qjs_get_time_ms_def lift_db_def
      run_script_db_def init_response_class_def tick_js_def case_prod_beta)

lemma run_create:
  assumes "initialized cfg" "works J (calls w)" "works J (calls w + 1)" "works J (calls w + 2)"
  shows "\<exists>c es k. run_state (hbf_qjs_ctx_create_with_db J cfg Main_db) w =
      (Some c, tick_js 8 es (w\<lparr>response_class := k\<rparr>)) \<and> request_ctx c"
  using assms
  by (auto simp: hbf_qjs_ctx_create_with_db_def hbf_qjs_ctx_create_internal_def init_module_def
      hbf_qjs_init_db_module_def hbf_qjs_init_console_module_def request_ctx_def numeral_eq_Suc)

lemma run_destroy: "\<exists>es. run_state (hbf_qjs_ctx_destroy x) w = ((), tick_js 0 es w)"
  by (auto simp: hbf_qjs_ctx_destroy_def tick_js_def intro: exI [of _ "[]"] split: option.split)

lemma run_eval:
  assumes "request_ctx c" "kind J (calls w + 1) \<noteq> K_exception" "run_jobs (job J (calls w + 2)) = Some 0"
  shows "\<exists>c' es. run_state (hbf_qjs_eval_module J (Some c) (Some src)) w = (Some (0, Some c'), tick_js 3 es w) \<and>
    request_ctx c'"
  using assms by (auto simp: hbf_qjs_eval_module_def request_ctx_def numeral_eq_Suc)

lemma run_finish:
  "\<exists>fs. run_state (finish_response q g a h r resp) w =
     (Status (status_code resp), tick_js 0 (Send (hbf_send_response resp) # fs) w)"
proof -
  let ?w = "tick_js 0 (Send (hbf_send_response resp) # free_value ''result'' r @ free_value ''handle_func'' h @
       free_value ''app'' a @ [Put (Value ''res''), Put (Value ''req'')] @
       free_value ''global'' g @ [Put Response]) w"
  obtain es where "run_state (hbf_qjs_ctx_destroy q) ?w = ((), tick_js 0 es ?w)"
    using run_destroy by blast
  then show ?thesis
    by (simp add: finish_response_def) (rule exI, rule refl)
qed

text \<open>From the lookup of \<open>app.handle\<close> on: seven calls.\<close>

lemma run_find_handle:
  assumes "request_ctx c" "kind J (calls w) \<notin> {K_exception, K_null, K_undefined}"
    and "kind J (calls w + 1) \<notin> {K_null, K_undefined}" "kind J (calls w + 2) = K_function"
    and "run_calls (script A (calls w + 4)) resp = Some resp'" "kind J (calls w + 5) \<noteq> K_exception"
    and "run_jobs (job J (calls w + 6)) = Some v"
  shows "\<exists>es fs. run_state (find_handle J A (Some c) resp) w =
    (Status (status_code resp'), tick_js 7 (es @ Send (hbf_send_response resp') # fs)
       (w\<lparr>dbc := db_effect A (calls w + 4) (dbc w)\<rparr>))"
proof -
  let ?k = "kind J (calls w)" and ?a = "kind J (calls w + 1)" and ?h = "kind J (calls w + 2)"
    and ?r = "kind J (calls w + 5)"
  let ?es = "value_got ''global'' ?k @ value_got ''app'' ?a @ value_got ''handle_func'' ?h @
    value_got ''result'' ?r"
  let ?w = "tick_js 7 ?es (w\<lparr>dbc := db_effect A (calls w + 4) (dbc w)\<rparr>)"
  let ?c = "c\<lparr>start_time_ms := time J (calls w + 3)\<rparr>"
  obtain fs where fs: "run_state (finish_response (Some ?c) ?k ?a ?h ?r resp') ?w =
      (Status (status_code resp'), tick_js 0 (Send (hbf_send_response resp') # fs) ?w)"
    using run_finish by blast
  have "run_state (find_handle J A (Some c) resp) w = run_state (finish_response (Some ?c) ?k ?a ?h ?r resp') ?w"
    using assms(2-7) by (simp add: find_handle_def call_app_def hbf_qjs_begin_exec_def numeral_eq_Suc)
  then show ?thesis unfolding fs by (simp del: append_assoc) (rule exI, rule exI, rule refl)
qed

fun is_message :: "event \<Rightarrow> bool" where
  "is_message (Reply code) = True"
| "is_message (Send t) = True"
| "is_message e = False"

lemma accepts_messages: "accepts (H, out) es = Some (H', out') \<Longrightarrow> out' = out @ filter is_message es"
proof (induction es arbitrary: H out)
  case (Cons e es)
  show ?case using Cons.prems Cons.IH by (cases e) (fastforce split: if_splits)+
qed simp

text \<open>
  C5. When the engine is initialised, the context, the request and the response object can be made,
  hbf/server.js is found and evaluates without an exception to an \<open>app\<close> with a function
  \<open>handle\<close>, and the call returns without an exception and its jobs end, then the one message the
  client gets is the response as the script left it after the last job, and the status returned
  is its status. A job that fails after the call does not change that. The database is as the
  module and the call left it.
\<close>

theorem handler_success:
  assumes "initialized cfg" "\<forall>k \<in> {0, 1, 2, 12}. works J (calls w + k)"
    and "run_state (overlay_fs_read_file E g (Some ''hbf/server.js'') 1 (Some (None, 0))) (dbc w) =
      ((0, Some (Some js, sz)), d)" "sz \<noteq> 0"
    and "kind J (calls w + 10) \<noteq> K_exception" "run_jobs (job J (calls w + 11)) = Some 0"
    and "hbf_qjs_create_request RE True (Some ri) = Req_Object req"
    and "kind J (calls w + 13) \<notin> {K_exception, K_null, K_undefined}"
    and "kind J (calls w + 14) \<notin> {K_null, K_undefined}" "kind J (calls w + 15) = K_function"
    and "run_calls (script A (calls w + 17)) (hbf_qjs_create_response resp0) = Some resp"
    and "kind J (calls w + 18) \<noteq> K_exception" "run_jobs (job J (calls w + 19)) = Some v"
  shows "\<exists>w' es. run_state (hbf_qjs_request_handler J A E cfg g Main_db RE (Some ri) resp0) w =
      (Status (status_code resp), w') \<and> trace w' = trace w @ es \<and>
    filter is_message es = [Send (hbf_send_response resp)] \<and>
    dbc w' = db_effect A (calls w + 17) (db_effect A (calls w + 8) d)"
proof -
  let ?run = "run_state (hbf_qjs_request_handler J A E cfg g Main_db RE (Some ri) resp0) w"
  let ?w0 = "tick_js 0 [Get Mutex] w"
  obtain c es1 k where 1: "run_state (hbf_qjs_ctx_create_with_db J cfg Main_db) ?w0 =
      (Some c, tick_js 8 es1 (?w0\<lparr>response_class := k\<rparr>))" "request_ctx c"
    using run_create [of cfg J ?w0] assms(1,2) by auto
  let ?v = "w\<lparr>response_class := k\<rparr>"
  have v: "?w0\<lparr>response_class := k\<rparr> = tick_js 0 [Get Mutex] ?v" "dbc ?v = dbc w" "calls ?v = calls w" "trace ?v = trace w"
    by (simp_all add: tick_js_def)
  let ?w1 = "tick_js 9 ([Get Mutex] @ es1 @ [Get Buffer]) (?v\<lparr>dbc := db_effect A (calls w + 8) d\<rparr>)"
  have "kind J (calls ?w1 + 1) \<noteq> K_exception" "run_jobs (job J (calls ?w1 + 2)) = Some 0"
    using assms(5,6) by (simp_all add: add.commute)
  then obtain c' es2 where 2: "run_state (hbf_qjs_eval_module J (Some c) (Some (map char_of_byte js))) ?w1 =
      (Some (0, Some c'), tick_js 3 es2 ?w1)" "request_ctx c'"
    using run_eval [OF 1(2), of J ?w1 "map char_of_byte js"] by blast
  let ?w2 = "tick_js 1 [Get (Value ''req''), Get (Value ''res''), Get Response] (tick_js 0 [Put Buffer] (tick_js 3 es2 ?w1))"
  have "kind J (calls ?w2) \<notin> {K_exception, K_null, K_undefined}" "kind J (calls ?w2 + 1) \<notin> {K_null, K_undefined}"
    "kind J (calls ?w2 + 2) = K_function"
    "run_calls (script A (calls ?w2 + 4)) (hbf_qjs_create_response resp0) = Some resp"
    "kind J (calls ?w2 + 5) \<noteq> K_exception" "run_jobs (job J (calls ?w2 + 6)) = Some v"
    using assms(8-13) by (simp_all add: add.commute)
  then obtain es3 fs where 3: "run_state (find_handle J A (Some c') (hbf_qjs_create_response resp0)) ?w2 =
      (Status (status_code resp), tick_js 7 (es3 @ Send (hbf_send_response resp) # fs)
        (?w2\<lparr>dbc := db_effect A (calls ?w2 + 4) (dbc ?w2)\<rparr>))"
    using run_find_handle [OF 2(2), of J ?w2 A "hbf_qjs_create_response resp0" resp v] by blast
  have "?run = run_state (load_server J A E g RE ri resp0 (Some c)) (tick_js 8 es1 (tick_js 0 [Get Mutex] ?v))"
    using 1 unfolding v(1) by (simp add: hbf_qjs_request_handler_def hbf_qjs_get_js_context_def request_ctx_def)
  also have "\<dots> = run_state (make_objects J A RE ri resp0 (Some c')) (tick_js 0 [Put Buffer] (tick_js 3 es2 ?w1))"
    using assms(3,4) 2 by (simp add: load_server_def)
  also have "\<dots> = run_state (find_handle J A (Some c') (hbf_qjs_create_response resp0)) ?w2"
    using assms(2,7) by (simp add: make_objects_def add.commute)
  finally have run: "?run = (Status (status_code resp), tick_js 7 (es3 @ Send (hbf_send_response resp) # fs)
        (?w2\<lparr>dbc := db_effect A (calls ?w2 + 4) (dbc ?w2)\<rparr>))" using 3 by simp
  let ?es = "[Get Mutex] @ es1 @ [Get Buffer] @ es2 @ [Put Buffer, Get (Value ''req''), Get (Value ''res''),
      Get Response] @ es3 @ Send (hbf_send_response resp) # fs"
  from handler_outcome [OF run] obtain H e where acc: "accepts ({}, []) ?es = Some (H, [e])" by auto
  have "Send (hbf_send_response resp) \<in> set (filter is_message ?es)" by simp
  moreover have one: "filter is_message ?es = [e]" using accepts_messages [OF acc] by simp
  ultimately have "Send (hbf_send_response resp) \<in> set [e]" by (simp only:)
  then have "filter is_message ?es = [Send (hbf_send_response resp)]" using one by simp
  with run show ?thesis by (auto simp: add.commute)
qed

text \<open>A server.js of one byte whose handler sends a greeting.\<close>

definition script_js :: js_env where
  "script_js = plain_js\<lparr>kind := \<lambda>_. K_function\<rparr>"

definition greeting_app :: app_env where
  "greeting_app = \<lparr>script = \<lambda>_. [Call_status True [] (Some 201), Call_send True True [] (Some ''hi'')],
     db_effect = \<lambda>_ c. c\<rparr>"

lemma one_file_written:
  "\<exists>s. wf (tabs s) \<and> healthy quiet_env s \<and> history (tabs s) ''hbf/server.js'' = [[59]]"
proof -
  have inv: "store_inv quiet_env (Suc 0) fresh_conn" using fresh_store_inv [of 1] by simp
  obtain s where s: "put_file quiet_env ''hbf/server.js'' [59] fresh_conn = (0, s)" "healthy quiet_env s"
    using put_healthy [OF inv fresh_healthy, of "[59]" "''hbf/server.js''"] by (auto simp: quiet_env_def)
  from store_inv_put [OF inv s(1)] s(2) show ?thesis
    by (intro exI [of _ s]) (simp add: store_inv_def appended_def)
qed

theorem handler_success_witness:
  "\<exists>w w' es. run_state (hbf_qjs_request_handler script_js greeting_app quiet_env
       (snd (hbf_qjs_init 64 5000 g_qjs_config)) Main_db Main_db sample_request_env (Some sample_request) no_response) w =
     (Status 201, w') \<and> trace w' = trace w @ es \<and> length (filter is_message es) = 1"
proof -
  obtain s where s: "wf (tabs s)" "healthy quiet_env s" "history (tabs s) ''hbf/server.js'' = [[59]]"
    using one_file_written by blast
  let ?w = "\<lparr>trace = [], calls = 0, dbc = s, response_class = 0\<rparr>"
  obtain d where "run_state (overlay_fs_read_file quiet_env Main_db (Some ''hbf/server.js'') 1 (Some (None, 0))) (dbc ?w) =
      ((0, Some (Some [59], 1)), d)"
    using read_by_view_healthy [OF s(1,2), of "''hbf/server.js''" 1 "(None, 0)"] s(3) by (auto simp: prod_eq_iff)
  note read = this
  obtain req where req: "hbf_qjs_create_request sample_request_env True (Some sample_request) = Req_Object req"
    by (simp add: hbf_qjs_create_request_def sample_request_env_def Let_def)
  let ?resp = "(hbf_qjs_create_response no_response)\<lparr>status_code := 201, body := Some ''hi'', sent := True\<rparr>"
  have run: "run_calls (script greeting_app n) (hbf_qjs_create_response no_response) = Some ?resp" for n
    by (simp add: greeting_app_def js_res_status_def js_res_send_def hbf_qjs_create_response_def store_body_def
        no_response_def)
  have jobs: "run_jobs (job script_js n) = Some 0" for n
    by (auto simp: script_js_def plain_js_def run_jobs_iff intro!: exI [of _ 0])
  show ?thesis
    using handler_success [of "snd (hbf_qjs_init 64 5000 g_qjs_config)" script_js ?w, OF _ _ read _ _ jobs req _ _ _ run _ jobs]
    by (fastforce simp: hbf_qjs_init_def g_qjs_config_def script_js_def plain_js_def)
qed

end
