(* ===== verification/Concurrency.thy ===== *)
theory Concurrency
  imports Handler_Props
begin

text \<open>
  Several worker threads of CivetWeb run \<open>hbf_qjs_request_handler\<close> at the same time. Each runs
  the events of its own request; one thread at a time takes a step, and
  \<open>pthread_mutex_lock\<close> waits. The locale \<open>disciplined\<close> is the contract between the handler and
  the threads: every program keeps the discipline of \<open>Js_Trace\<close>.
\<close>

section \<open>Threads\<close>

record threads =
  pending :: "nat \<Rightarrow> event list"
  past :: "nat \<Rightarrow> event list"
  owner :: "nat option"

definition start_threads :: "(nat \<Rightarrow> event list) \<Rightarrow> threads" where
  "start_threads prog = \<lparr>pending = prog, past = \<lambda>_. [], owner = None\<rparr>"

definition advance :: "nat \<Rightarrow> event \<Rightarrow> event list \<Rightarrow> threads \<Rightarrow> threads" where
  "advance i e es s = s\<lparr>pending := (pending s)(i := es), past := (past s)(i := past s i @ [e])\<rparr>"

lemma advance_program:
  "pending s i = e # es \<Longrightarrow> past (advance i e es s) k @ pending (advance i e es s) k = past s k @ pending s k"
  by (simp add: advance_def)

lemma advance_owner [simp]: "owner (advance i e es s) = owner s"
  by (simp add: advance_def)

inductive thread_step :: "threads \<Rightarrow> threads \<Rightarrow> bool" where
  lock: "pending s i = Get Mutex # es \<Longrightarrow> owner s = None \<Longrightarrow>
     thread_step s ((advance i (Get Mutex) es s)\<lparr>owner := Some i\<rparr>)"
| unlock: "pending s i = Put Mutex # es \<Longrightarrow> owner s = Some i \<Longrightarrow>
     thread_step s ((advance i (Put Mutex) es s)\<lparr>owner := None\<rparr>)"
| local: "pending s i = e # es \<Longrightarrow> e \<noteq> Get Mutex \<Longrightarrow> e \<noteq> Put Mutex \<Longrightarrow>
     thread_step s (advance i e es s)"

inductive_cases thread_stepE: "thread_step s t"

inductive reaches :: "threads \<Rightarrow> nat \<Rightarrow> threads \<Rightarrow> bool" where
  here: "reaches s 0 s"
| further: "reaches s n t \<Longrightarrow> thread_step t u \<Longrightarrow> reaches s (Suc n) u"

inductive_simps reaches_zero: "reaches s 0 t"

text \<open>What a thread has acquired and not given back, whether or not it keeps the discipline.\<close>

fun holding :: "resource set \<Rightarrow> event list \<Rightarrow> resource set" where
  "holding H [] = H"
| "holding H (Get r # es) = holding (insert r H) es"
| "holding H (Put r # es) = holding (H - {r}) es"
| "holding H (e # es) = holding H es"

definition held_by :: "threads \<Rightarrow> nat \<Rightarrow> resource set" where
  "held_by s i = holding {} (past s i)"

section \<open>Programs that keep the discipline\<close>

lemma accepts_prefix: "accepts s (xs @ ys) = Some t \<Longrightarrow> \<exists>u. accepts s xs = Some u"
  by (auto simp: accepts_append split: option.splits)

lemma observe_cases:
  assumes "observe (H, out) e = Some (H', out')"
  shows "(\<exists>r. e = Get r \<and> r \<notin> H \<and> needs r \<subseteq> H \<and> H' = insert r H) \<or>
    (\<exists>r. e = Put r \<and> r \<in> H \<and> (\<forall>q \<in> H. r \<notin> needs q) \<and> H' = H - {r}) \<or>
    (\<forall>r. e \<noteq> Get r \<and> e \<noteq> Put r) \<and> H' = H"
  using assms by (cases e) (auto split: if_splits)

lemma accepts_holding: "accepts (H, out) es = Some (H', out') \<Longrightarrow> holding H es = H'"
  by (induction H es arbitrary: out rule: holding.induct) (auto split: if_splits)

lemma accepts_closed:
  "accepts (H, out) es = Some (H', out') \<Longrightarrow> (\<forall>r \<in> H. needs r \<subseteq> H) \<Longrightarrow> (\<forall>r \<in> H'. needs r \<subseteq> H')"
proof (induction es arbitrary: H out)
  case (Cons e es)
  then obtain H1 out1 where e: "observe (H, out) e = Some (H1, out1)"
    and es: "accepts (H1, out1) es = Some (H', out')" by (auto split: option.splits)
  have "\<forall>r \<in> H1. needs r \<subseteq> H1" using observe_cases [OF e] Cons.prems(2) by blast
  with es show ?case by (rule Cons.IH)
qed simp

lemma needs_mutex: "r \<noteq> Mutex \<Longrightarrow> r \<noteq> Buffer \<Longrightarrow> Mutex \<in> needs r"
  by (cases r) auto

locale disciplined =
  fixes prog :: "nat \<Rightarrow> event list"
  assumes lawful: "\<exists>t. accepts ({}, []) (prog i) = Some t"
begin

definition consistent :: "threads \<Rightarrow> bool" where
  "consistent s \<longleftrightarrow> (\<forall>i. past s i @ pending s i = prog i) \<and>
     (\<forall>i. Mutex \<in> held_by s i \<longleftrightarrow> owner s = Some i)"

lemma consistent_start: "consistent (start_threads prog)"
  by (simp add: consistent_def start_threads_def held_by_def)

lemma next_observed:
  assumes "consistent s" "pending s i = e # es"
  obtains H out H' out' where "accepts ({}, []) (past s i) = Some (H, out)"
    "observe (H, out) e = Some (H', out')" "accepts ({}, []) (past s i @ [e]) = Some (H', out')"
proof -
  have "past s i @ e # es = prog i" using assms by (metis consistent_def)
  then obtain t where "accepts ({}, []) (past s i @ e # es) = Some t" using lawful [of i] by auto
  then obtain H out s' where 1: "accepts ({}, []) (past s i) = Some (H, out)" "observe (H, out) e = Some s'"
    by (auto simp: accepts_append split: option.splits)
  obtain H' out' where "s' = (H', out')" by (rule prod.exhaust)
  with 1 that show ?thesis by (simp add: accepts_append)
qed

lemma past_accepted:
  assumes "consistent s" obtains H out where "accepts ({}, []) (past s i) = Some (H, out)" "held_by s i = H"
proof -
  have "past s i @ pending s i = prog i" using assms by (simp add: consistent_def)
  then obtain t where "accepts ({}, []) (past s i @ pending s i) = Some t" using lawful [of i] by auto
  then obtain H out where "accepts ({}, []) (past s i) = Some (H, out)"
    by (auto dest: accepts_prefix)
  with that show ?thesis by (simp add: held_by_def accepts_holding)
qed

lemma held_by_advance:
  "held_by (advance i e es s) j = (if j = i then holding {} (past s i @ [e]) else held_by s j)"
  "held_by ((advance i e es s)\<lparr>owner := x\<rparr>) j = held_by (advance i e es s) j"
  by (simp_all add: held_by_def advance_def)

lemma consistent_step:
  assumes "thread_step s t" "consistent s" shows "consistent t"
  using assms(1)
proof cases
  case (lock i es)
  obtain H out H' out' where o: "accepts ({}, []) (past s i) = Some (H, out)"
    "observe (H, out) (Get Mutex) = Some (H', out')" "accepts ({}, []) (past s i @ [Get Mutex]) = Some (H', out')"
    by (rule next_observed [OF assms(2) lock(2)])
  then have "H' = insert Mutex H" by (auto split: if_splits)
  with accepts_holding [OF o(3)] lock assms(2) show ?thesis
    by (auto simp: consistent_def held_by_advance advance_program)
next
  case (unlock i es)
  obtain H out H' out' where o: "accepts ({}, []) (past s i) = Some (H, out)"
    "observe (H, out) (Put Mutex) = Some (H', out')" "accepts ({}, []) (past s i @ [Put Mutex]) = Some (H', out')"
    by (rule next_observed [OF assms(2) unlock(2)])
  then have "H' = H - {Mutex}" by (auto split: if_splits)
  with accepts_holding [OF o(3)] unlock assms(2) show ?thesis
    by (auto simp: consistent_def held_by_advance advance_program)
next
  case (local i e es)
  obtain H out H' out' where o: "accepts ({}, []) (past s i) = Some (H, out)"
    "observe (H, out) e = Some (H', out')" "accepts ({}, []) (past s i @ [e]) = Some (H', out')"
    by (rule next_observed [OF assms(2) local(2)])
  then have H: "Mutex \<in> H' \<longleftrightarrow> Mutex \<in> H" using observe_cases [OF o(2)] local(3,4) by auto
  have "held_by s i = H" using o(1) by (simp add: held_by_def accepts_holding)
  with accepts_holding [OF o(3)] H local assms(2) show ?thesis
    by (auto simp: consistent_def held_by_advance advance_program)
qed

lemma reaches_consistent: "reaches s n t \<Longrightarrow> consistent s \<Longrightarrow> consistent t"
  by (induction rule: reaches.induct) (blast intro: consistent_step)+

text \<open>Two threads never hold resources of QuickJS at the same time.\<close>

lemma exclusive:
  assumes "reaches (start_threads prog) n s" "r \<in> held_by s i" "q \<in> held_by s j" "r \<noteq> Buffer" "q \<noteq> Buffer"
  shows "i = j"
proof -
  have c: "consistent s" by (rule reaches_consistent [OF assms(1) consistent_start])
  have "owner s = Some k" if "x \<in> held_by s k" "x \<noteq> Buffer" for x k
  proof -
    obtain H out where "accepts ({}, []) (past s k) = Some (H, out)" "held_by s k = H"
      by (rule past_accepted [OF c])
    then have "Mutex \<in> held_by s k"
      using accepts_closed [of "{}" "[]" "past s k" H out] that needs_mutex [of x] by (cases "x = Mutex") auto
    with c show ?thesis by (simp add: consistent_def)
  qed
  from this [OF assms(2,4)] this [OF assms(3,5)] show ?thesis by simp
qed

text \<open>When no program ends with the mutex, some thread can move until all are done.\<close>

lemma no_deadlock:
  assumes "reaches (start_threads prog) n s" "pending s i \<noteq> []"
    and "\<And>k H out. accepts ({}, []) (prog k) = Some (H, out) \<Longrightarrow> Mutex \<notin> H"
  shows "\<exists>t. thread_step s t"
proof -
  have c: "consistent s" by (rule reaches_consistent [OF assms(1) consistent_start])
  define k where "k = (case owner s of None \<Rightarrow> i | Some k \<Rightarrow> k)"
  have "pending s k \<noteq> []"
  proof
    assume finished: "pending s k = []"
    with assms(2) have k: "owner s = Some k" by (auto simp: k_def split: option.splits)
    obtain H out where "accepts ({}, []) (past s k) = Some (H, out)" "held_by s k = H"
      by (rule past_accepted [OF c])
    moreover have "past s k = prog k" using c finished by (metis append_Nil2 consistent_def)
    ultimately show False using assms(3) [of k H out] c k by (auto simp: consistent_def)
  qed
  then obtain e es where e: "pending s k = e # es" by (cases "pending s k") auto
  obtain H out H' out' where o: "accepts ({}, []) (past s k) = Some (H, out)"
    "observe (H, out) e = Some (H', out')" by (rule next_observed [OF c e])
  have own: "Mutex \<in> H \<longleftrightarrow> owner s = Some k" 
    using c accepts_holding [OF o(1)] by (auto simp: consistent_def held_by_def)
  show ?thesis
  proof (cases "e = Get Mutex \<or> e = Put Mutex")
    case True
    then show ?thesis
    proof
      assume g: "e = Get Mutex"
      then have "owner s = None" using o(2) own by (auto simp: k_def split: if_splits option.splits)
      with e g show ?thesis by (blast intro: thread_step.lock)
    next
      assume p: "e = Put Mutex"
      then have "owner s = Some k" using o(2) own by (auto split: if_splits)
      with e p show ?thesis by (blast intro: thread_step.unlock)
    qed
  next
    case False
    with e show ?thesis by (blast intro: thread_step.local)
  qed
qed

end

section \<open>The threads of the server\<close>

text \<open>One call of the handler: its arguments and the state it starts in.\<close>

record request_run =
  run_js :: js_env
  run_app :: app_env
  run_env :: env
  run_cfg :: qjs_config
  run_global :: sqlite3_ptr
  run_db :: sqlite3_ptr
  run_request_env :: request_env
  run_info :: "mg_request_info option"
  run_response :: hbf_response
  run_world :: world

definition handle_request :: "request_run \<Rightarrow> outcome \<times> world" where
  "handle_request q = run_state (hbf_qjs_request_handler (run_js q) (run_app q) (run_env q) (run_cfg q)
     (run_global q) (run_db q) (run_request_env q) (run_info q) (run_response q)) (run_world q)"

definition handler_events :: "request_run \<Rightarrow> event list" where
  "handler_events q = drop (length (trace (run_world q))) (trace (snd (handle_request q)))"

lemma handler_events_accepted:
  "\<exists>H out. accepts ({}, []) (handler_events q) = Some (H, out) \<and>
     (\<forall>code. fst (handle_request q) = Status code \<longrightarrow> H \<subseteq> {Buffer} \<and>
        (if run_info q = None then out = [] else \<exists>e. out = [e] \<and> answers code e))"
proof -
  obtain r w' where run: "handle_request q = (r, w')" by (rule prod.exhaust)
  from handler_outcome [OF run [unfolded handle_request_def]] show ?thesis
    by (auto simp: handler_events_def run split: if_splits)
qed

interpretation server: disciplined "\<lambda>i. handler_events (R i)" for R
  by unfold_locales (use handler_events_accepted in blast)

text \<open>
  C6. However the threads of the server interleave and whatever their requests do, no two of
  them hold resources of QuickJS at the same time: a runtime, a context, a value or string, a
  response or the mutex is only ever held by one thread.
\<close>

theorem quickjs_exclusive:
  assumes "reaches (start_threads (\<lambda>i. handler_events (R i))) n s"
    and "r \<in> held_by s i" "q \<in> held_by s j" "r \<noteq> Buffer" "q \<noteq> Buffer"
  shows "i = j"
  by (rule server.exclusive [OF assms])

text \<open>A request that finds the engine not initialised.\<close>

definition turned_down :: request_run where
  "turned_down = \<lparr>run_js = plain_js, run_app = idle_app, run_env = quiet_env, run_cfg = g_qjs_config,
     run_global = Main_db, run_db = Main_db, run_request_env = sample_request_env,
     run_info = Some sample_request, run_response = no_response, run_world = start_world\<rparr>"

lemma turned_down_run:
  "handle_request turned_down = (Status 500, start_world\<lparr>trace := [Get Mutex, Put Mutex, Reply 500]\<rparr>)"
  by (simp add: handle_request_def turned_down_def hbf_qjs_request_handler_def hbf_qjs_ctx_create_with_db_def
      hbf_qjs_ctx_create_internal_def g_qjs_config_def emit_def start_world_def)

lemma turned_down_events: "handler_events turned_down = [Get Mutex, Put Mutex, Reply 500]"
  by (simp add: handler_events_def turned_down_run) (simp add: turned_down_def start_world_def)

theorem quickjs_exclusive_witness:
  "\<exists>s. reaches (start_threads (\<lambda>i. handler_events turned_down)) 1 s \<and> Mutex \<in> held_by s 3 \<and>
     (\<forall>j q. q \<in> held_by s j \<longrightarrow> q \<noteq> Buffer \<longrightarrow> j = 3)"
proof -
  let ?init = "start_threads (\<lambda>i. handler_events turned_down)"
  let ?s = "(advance 3 (Get Mutex) [Put Mutex, Reply 500] ?init)\<lparr>owner := Some 3\<rparr>"
  have "thread_step ?init ?s"
    by (rule thread_step.lock) (simp_all add: start_threads_def turned_down_events)
  then have run: "reaches ?init 1 ?s" using reaches.further [OF reaches.here] by simp
  have held: "Mutex \<in> held_by ?s 3" by (simp add: held_by_def advance_def start_threads_def)
  have "j = 3" if "q \<in> held_by ?s j" "q \<noteq> Buffer" for j q
    using quickjs_exclusive [of "\<lambda>_. turned_down", OF run that(1) held that(2)] by simp
  with run held show ?thesis by blast
qed

section \<open>Every request is answered\<close>

lemma step_measure:
  assumes "thread_step s t" "\<And>i. m \<le> i \<Longrightarrow> pending s i = []"
  shows "(\<Sum>i<m. length (pending s i)) = Suc (\<Sum>i<m. length (pending t i)) \<and>
    (\<forall>i. m \<le> i \<longrightarrow> pending t i = [])"
proof -
  have "\<exists>i e es. pending s i = e # es \<and> pending t = (pending s)(i := es)"
    using assms(1) by (rule thread_stepE) (simp_all add: advance_def, blast+)
  then obtain i e es where e: "pending s i = e # es" "pending t = (pending s)(i := es)" by blast
  with assms(2) have i: "i < m" by (metis list.distinct(1) not_less)
  have split: "(\<Sum>j<m. length (p j)) = length (p i) + (\<Sum>j \<in> {..<m} - {i}. length (p j))" for p :: "nat \<Rightarrow> event list"
    using i by (intro sum.remove) simp_all
  have "(\<Sum>j \<in> {..<m} - {i}. length (pending t j)) = (\<Sum>j \<in> {..<m} - {i}. length (pending s j))"
    using e by (intro sum.cong) auto
  then show ?thesis using e assms(2) i by (auto simp: split)
qed

lemma reaches_measure:
  assumes "reaches s n t" "\<forall>i. m \<le> i \<longrightarrow> pending s i = []"
  shows "(\<Sum>i<m. length (pending s i)) = n + (\<Sum>i<m. length (pending t i)) \<and>
    (\<forall>i. m \<le> i \<longrightarrow> pending t i = [])"
  using assms
proof (induction rule: reaches.induct)
  case (further s n t u)
  then have IH: "(\<Sum>i<m. length (pending s i)) = n + (\<Sum>i<m. length (pending t i))"
    "\<forall>i. m \<le> i \<longrightarrow> pending t i = []" by auto
  show ?case using step_measure [OF further.hyps(2), of m] IH by simp
qed simp

text \<open>
  C7. Where every request returns, the server never gets stuck: with \<open>m\<close> requests, whichever
  thread the scheduler picks, some thread can move until all of them are done, and that
  takes exactly as many steps as the requests have events. Every request that has a request info
  has then got exactly one message, with the status its handler returned, and the mutex is free.
\<close>

theorem requests_all_answered:
  assumes "\<forall>i. \<exists>code. fst (handle_request (R i)) = Status code" "\<forall>i. m \<le> i \<longrightarrow> handler_events (R i) = []"
    and "reaches (start_threads (\<lambda>i. handler_events (R i))) n s"
  shows "n \<le> (\<Sum>i<m. length (handler_events (R i))) \<and>
    ((\<exists>t. thread_step s t) \<or>
     n = (\<Sum>i<m. length (handler_events (R i))) \<and> owner s = None \<and>
     (\<forall>i. pending s i = [] \<and> (\<exists>H out. accepts ({}, []) (past s i) = Some (H, out) \<and> H \<subseteq> {Buffer} \<and>
        (run_info (R i) \<noteq> None \<longrightarrow> (\<exists>e code. out = [e] \<and> fst (handle_request (R i)) = Status code \<and> answers code e)))))"
proof -
  let ?P = "\<lambda>i. handler_events (R i)"
  have n: "(\<Sum>i<m. length (?P i)) = n + (\<Sum>i<m. length (pending s i))"
    using reaches_measure [OF assms(3), of m] assms(2) by (simp add: start_threads_def)
  have c: "server.consistent R s" by (rule server.reaches_consistent [OF assms(3) server.consistent_start])
  show ?thesis
  proof (cases "\<forall>i. pending s i = []")
    case False
    then obtain i where "pending s i \<noteq> []" by blast
    moreover have "Mutex \<notin> H" if "accepts ({}, []) (?P k) = Some (H, out)" for k H out
      using handler_events_accepted [of "R k"] assms(1) that by fastforce
    ultimately have "\<exists>t. thread_step s t" by (rule server.no_deadlock [OF assms(3)])
    with n show ?thesis by simp
  next
    case True
    then have past: "past s i = ?P i" for i using c by (metis append_Nil2 server.consistent_def)
    have fin: "\<exists>H out. accepts ({}, []) (past s i) = Some (H, out) \<and> H \<subseteq> {Buffer} \<and>
        (run_info (R i) \<noteq> None \<longrightarrow> (\<exists>e code. out = [e] \<and> fst (handle_request (R i)) = Status code \<and> answers code e))" for i
    proof -
      obtain H out where a: "accepts ({}, []) (past s i) = Some (H, out)"
        using handler_events_accepted [of "R i"] past by auto
      obtain code where code: "fst (handle_request (R i)) = Status code" using assms(1) by blast
      show ?thesis using handler_events_accepted [of "R i"] past a code by (auto split: if_splits)
    qed
    have "owner s = None"
    proof (rule ccontr)
      assume "owner s \<noteq> None"
      then obtain i where "owner s = Some i" by blast
      then have "Mutex \<in> held_by s i" using c by (simp add: server.consistent_def)
      with fin [of i] show False by (auto simp: held_by_def accepts_holding)
    qed
    with n True fin show ?thesis by simp
  qed
qed

definition no_request :: request_run where
  "no_request = turned_down\<lparr>run_info := None\<rparr>"

lemma no_request_run: "handle_request no_request = (Status 500, start_world)"
  by (simp add: handle_request_def no_request_def turned_down_def hbf_qjs_request_handler_def)

theorem requests_all_answered_witness:
  "\<exists>t. thread_step (start_threads (\<lambda>i. handler_events (if i < 2 then turned_down else no_request))) t"
proof -
  let ?R = "\<lambda>i :: nat. if i < 2 then turned_down else no_request"
  let ?init = "start_threads (\<lambda>i. handler_events (?R i))"
  have none: "handler_events no_request = []"
    by (simp add: handler_events_def no_request_run) (simp add: no_request_def turned_down_def)
  have 1: "\<forall>i. \<exists>code. fst (handle_request (?R i)) = Status code"
    by (simp add: turned_down_run no_request_run)
  have 2: "\<forall>i. 2 \<le> i \<longrightarrow> handler_events (?R i) = []" by (simp add: none)
  have "(\<Sum>i<2. length (handler_events (?R i))) = 6"
    by (simp add: turned_down_events lessThan_nat_numeral)
  then show ?thesis using requests_all_answered [of ?R 2, OF 1 2 reaches.here] by simp
qed

end
