(* ===== verification/Server.thy ===== *)
theory Server
  imports Overlay_Fs Request Response
begin

text \<open>
  hbf/http/server.c: static files, the health check and the life of the server. What is sent
  on a connection is a value: the number of an error page of CivetWeb, or the text of the
  head and the bytes of the body. CivetWeb's \<open>mg_start\<close> is an argument; the handlers it is
  given are recorded with their patterns.
\<close>

section \<open>MIME types\<close>

definition get_mime_type :: "string \<Rightarrow> string" where
  "get_mime_type path =
     (case strrchr path (CHR ''.'') of
        None \<Rightarrow> ''application/octet-stream''
      | Some ext \<Rightarrow>
          if strcmp ext ''.html'' = 0 then ''text/html''
          else if strcmp ext ''.css'' = 0 then ''text/css''
          else if strcmp ext ''.js'' = 0 then ''application/javascript''
          else if strcmp ext ''.json'' = 0 then ''application/json''
          else if strcmp ext ''.png'' = 0 then ''image/png''
          else if strcmp ext ''.jpg'' = 0 \<or> strcmp ext ''.jpeg'' = 0 then ''image/jpeg''
          else if strcmp ext ''.svg'' = 0 then ''image/svg+xml''
          else if strcmp ext ''.ico'' = 0 then ''image/x-icon''
          else if strcmp ext ''.woff'' = 0 then ''font/woff''
          else if strcmp ext ''.woff2'' = 0 then ''font/woff2''
          else if strcmp ext ''.wasm'' = 0 then ''application/wasm''
          else if strcmp ext ''.md'' = 0 then ''text/markdown''
          else ''application/octet-stream'')"

section \<open>Requests\<close>

datatype message = Http_Error int | Http_Ok string bytes

definition http_head :: "string list \<Rightarrow> string" where
  "http_head ls = concat (map (\<lambda>l. l @ crlf) ls) @ crlf"

text \<open>The \<open>path\<close> of 512 characters. \<open>None\<close> is undefined behaviour: the URI is NULL, or empty and
  read from behind its NUL.\<close>

definition static_path :: "string option \<Rightarrow> string option" where
  "static_path uri =
     (case uri of
        None \<Rightarrow> None
      | Some u \<Rightarrow>
          if strcmp u ''/'' = 0 then Some (snprintf_s 512 ''static/index.html'')
          else (case u of [] \<Rightarrow> None | _ # rest \<Rightarrow> Some (snprintf_s 512 rest)))"

definition static_handler ::
    "env \<Rightarrow> sqlite3_ptr \<Rightarrow> mg_request_info option \<Rightarrow> nat \<Rightarrow> (int \<times> message) option dbm" where
  "static_handler E g ri size0 =
     (case ri of
        None \<Rightarrow> ret (Some (500, Http_Error 500))
      | Some info \<Rightarrow>
          (case static_path (local_uri info) of
             None \<Rightarrow> ret None
           | Some path \<Rightarrow> do {
               (rc, outs) \<leftarrow> overlay_fs_read_file E g (Some path) 1 (Some (None, size0));
               (if rc \<noteq> 0 then ret (Some (404, Http_Error 404))
                else (case outs of
                   Some (Some data, sz) \<Rightarrow>
                     ret (Some (200, Http_Ok
                       (http_head [''HTTP/1.1 200 OK'',
                          ''Content-Type: '' @ get_mime_type path,
                          ''Content-Length: '' @ decimal sz,
                          ''Cache-Control: public, max-age=3600'',
                          ''Connection: close'']) data))
                 | _ \<Rightarrow> ret None))
             }))"

definition health_handler :: "int \<times> message" where
  "health_handler =
     (let response = ''{\"status\":\"ok\"}''
      in (200, Http_Ok
            (http_head [''HTTP/1.1 200 OK'', ''Content-Type: application/json'',
               ''Content-Length: '' @ decimal (length response), ''Connection: close''])
            (map byte_of_char response)))"

section \<open>The server\<close>

datatype handler_fun = Health_handler | Static_handler | Qjs_request_handler

record hbf_server =
  server_port :: int
  db :: sqlite3_ptr
  mg_ctx :: "(string \<times> handler_fun) list option"

definition hbf_server_create :: "bool \<Rightarrow> int \<Rightarrow> sqlite3_ptr \<Rightarrow> hbf_server option" where
  "hbf_server_create alloc p d =
     (if d = Null_db then None
      else if \<not> alloc then None
      else Some \<lparr>server_port = p, db = d, mg_ctx = None\<rparr>)"

text \<open>\<open>mg_start_ok\<close> is CivetWeb's answer to the text of "listening_ports".\<close>

definition hbf_server_start :: "(string \<Rightarrow> bool) \<Rightarrow> hbf_server option \<Rightarrow> int \<times> hbf_server option" where
  "hbf_server_start mg_start_ok server =
     (case server of
        None \<Rightarrow> (-1, None)
      | Some s \<Rightarrow>
          let port_str = snprintf_s 16 (decimal_int (server_port s))
          in if \<not> mg_start_ok port_str then (-1, Some (s\<lparr>mg_ctx := None\<rparr>))
             else (0, Some (s\<lparr>mg_ctx := Some
                    [(''/health'', Health_handler), (''/static/**'', Static_handler),
                     (''**'', Qjs_request_handler)]\<rparr>)))"

text \<open>The calls that give things back, in order.\<close>

datatype server_event = Mg_stop | Free_server

definition hbf_server_stop :: "hbf_server option \<Rightarrow> hbf_server option \<times> server_event list" where
  "hbf_server_stop server =
     (case server of
        None \<Rightarrow> (None, [])
      | Some s \<Rightarrow> if mg_ctx s \<noteq> None then (Some (s\<lparr>mg_ctx := None\<rparr>), [Mg_stop]) else (server, []))"

definition hbf_server_destroy :: "hbf_server option \<Rightarrow> server_event list" where
  "hbf_server_destroy server =
     (case server of
        None \<Rightarrow> []
      | Some s \<Rightarrow> (if mg_ctx s \<noteq> None then snd (hbf_server_stop server) else []) @ [Free_server])"

end
