(* ===== verification/Server_Props.thy ===== *)
theory Server_Props
  imports Server Migrate_Props Response_Props
begin

text \<open>What the static file handler answers, and the MIME types.\<close>

section \<open>MIME types\<close>

definition extension :: "string \<Rightarrow> string option" where
  "extension path = (if CHR ''.'' \<in> set path
     then Some (rev (takeWhile (\<lambda>c. c \<noteq> CHR ''.'') (rev path))) else None)"

definition mime_table :: "(string \<times> string) list" where
  "mime_table =
     [(''html'', ''text/html''), (''css'', ''text/css''), (''js'', ''application/javascript''),
      (''json'', ''application/json''), (''png'', ''image/png''), (''jpg'', ''image/jpeg''),
      (''jpeg'', ''image/jpeg''), (''svg'', ''image/svg+xml''), (''ico'', ''image/x-icon''),
      (''woff'', ''font/woff''), (''woff2'', ''font/woff2''), (''wasm'', ''application/wasm''),
      (''md'', ''text/markdown'')]"

definition mime_of :: "string \<Rightarrow> string" where
  "mime_of path = (case Option.bind (extension path) (map_of mime_table) of
     None \<Rightarrow> ''application/octet-stream'' | Some m \<Rightarrow> m)"

lemma get_mime_type_table:
  assumes "nul_free path" shows "get_mime_type path = mime_of path"
proof (cases "CHR ''.'' \<in> set path")
  case True
  define e where "e = rev (takeWhile (\<lambda>c. c \<noteq> CHR ''.'') (rev path))"
  have "set e \<subseteq> set path" by (auto simp: e_def dest: set_takeWhileD)
  then have nf: "nul_free e" using assms by (auto simp: nul_free_def)
  have eq: "strcmp (CHR ''.'' # e) (CHR ''.'' # t) = 0 \<longleftrightarrow> e = t" if "nul_free t" for t
    using strcmp_eq [OF nf that] by simp
  have ext: "strrchr path (CHR ''.'') = Some (CHR ''.'' # e)" "extension path = Some e"
    using True by (simp_all add: strrchr_def e_def extension_def)
  show ?thesis
    unfolding get_mime_type_def mime_of_def ext option.case bind.bind_lunit mime_table_def
    by (simp add: eq nul_free_def del: strcmp.simps)
next
  case False
  then show ?thesis by (simp add: get_mime_type_def mime_of_def strrchr_def extension_def)
qed

lemma mime_line_free: "line_free (mime_of path)"
proof -
  have "line_free m" if "map_of mime_table e = Some m" for e m
    using map_of_SomeD [OF that] by (auto simp: mime_table_def line_free_def)
  then have "line_free m" if "Option.bind (extension path) (map_of mime_table) = Some m" for m
    using that by (cases "extension path") simp_all
  moreover have "line_free ''application/octet-stream''" by (simp add: line_free_def)
  ultimately show ?thesis unfolding mime_of_def by (simp split: option.split)
qed

section \<open>Static files\<close>

lemma split_http_head:
  assumes "\<forall>l \<in> set ls. line_free l \<and> l \<noteq> []"
  shows "split_head (http_head ls @ b) = Some (ls, b)"
  using split_head_lines [OF assms, of "crlf @ b"] by (simp add: http_head_def split_head_empty)

definition ok_lines :: "string \<Rightarrow> bytes \<Rightarrow> string list" where
  "ok_lines path d = [''HTTP/1.1 200 OK'', ''Content-Type: '' @ mime_of path,
     ''Content-Length: '' @ decimal (length d), ''Cache-Control: public, max-age=3600'',
     ''Connection: close'']"

lemma ok_lines_free: "\<forall>l \<in> set (ok_lines path d). line_free l \<and> l \<noteq> []"
  using mime_line_free [of path] line_free_decimal(1) [of "length d"]
  by (auto simp: ok_lines_def line_free_def)

text \<open>The answer for a path with the contents \<open>f\<close>, or for a path without.\<close>

definition static_answer :: "string \<Rightarrow> bytes option \<Rightarrow> int \<times> message" where
  "static_answer path f = (case f of None \<Rightarrow> (404, Http_Error 404)
     | Some d \<Rightarrow> (200, Http_Ok (http_head (ok_lines path d)) d))"

lemma static_path_slash:
  "nul_free p \<Longrightarrow> p \<noteq> [] \<Longrightarrow> static_path (Some (CHR ''/'' # p)) = Some (take 511 p)"
  using strcmp_eq [of p "[]"] by (simp add: static_path_def snprintf_s_def nul_free_def)

lemma nul_free_take: "nul_free p \<Longrightarrow> nul_free (take n p)"
  by (auto simp: nul_free_def dest: in_set_takeD)

lemma static_handler_run:
  assumes "nul_free p" "p \<noteq> []" "local_uri info = Some (CHR ''/'' # p)"
    and "run_state (overlay_fs_read_file E g (Some (take 511 p)) 1 (Some (None, z))) s = (r, s')"
  shows "run_state (static_handler E g (Some info) z) s =
    (if fst r \<noteq> 0 then Some (404, Http_Error 404)
     else (case snd r of
        Some (Some d, sz) \<Rightarrow> Some (200, Http_Ok (http_head [''HTTP/1.1 200 OK'',
            ''Content-Type: '' @ mime_of (take 511 p), ''Content-Length: '' @ decimal sz,
            ''Cache-Control: public, max-age=3600'', ''Connection: close'']) d)
      | _ \<Rightarrow> None), s')"
  using assms(3,4)
  by (cases r) (simp add: static_handler_def static_path_slash [OF assms(1,2)]
      get_mime_type_table [OF nul_free_take [OF assms(1)]] split: option.splits)

lemma static_file_answer:
  assumes "wf (tabs s)" "calm E s" "nul_free p" "p \<noteq> []" "local_uri info = Some (CHR ''/'' # p)"
    and "run_state (static_handler E Main_db (Some info) z) s = (r, s')"
  shows "\<exists>f. r = Some (static_answer (take 511 p) f) \<and>
    (f = None \<or> history (tabs s) (take 511 p) \<noteq> [] \<and> f = Some (last (history (tabs s) (take 511 p)))) \<and>
    (healthy E s \<longrightarrow> (f = None \<longleftrightarrow> history (tabs s) (take 511 p) = [])) \<and>
    (\<forall>d. f = Some d \<longrightarrow> (\<exists>head. static_answer (take 511 p) f = (200, Http_Ok head d) \<and>
       split_head (head @ map char_of_byte d) = Some (ok_lines (take 511 p) d, map char_of_byte d))) \<and>
    tabs s' = tabs s"
proof -
  let ?q = "take 511 p"
  obtain x s1 where x: "run_state (overlay_fs_read_file E Main_db (Some ?q) 1 (Some (None, z))) s = (x, s1)"
    by (rule prod.exhaust)
  note run = static_handler_run [OF assms(3-5) x] assms(6)
  have msg: "split_head (http_head (ok_lines ?q d) @ map char_of_byte d) = Some (ok_lines ?q d, map char_of_byte d)" for d
    by (rule split_http_head [OF ok_lines_free])
  note sound = read_by_view_sound [OF assms(1,2) x]
  have full: "x = (if history (tabs s) ?q = [] then (-1, Some (None, 0))
      else (0, Some (Some (last (history (tabs s) ?q)), length (last (history (tabs s) ?q)))))"
    if "healthy E s"
    using read_by_view_healthy [OF assms(1) that, of ?q 1 "(None, z)"] x by simp
  from read_file_result [of E Main_db ?q 1 z s] x show ?thesis
  proof (elim disjE exE)
    fix js
    assume "fst (run_state (overlay_fs_read_file E Main_db (Some ?q) 1 (Some (None, z))) s) = (0, Some (Some js, length js))"
    then have 0: "x = (0, Some (Some js, length js))" using x by simp
    then have "r = Some (static_answer ?q (Some js))" using run by (simp add: static_answer_def ok_lines_def)
    then show ?thesis using run sound full msg 0
      by (intro exI [of _ "Some js"]) (auto simp: file_of_def static_answer_def split: if_splits)
  next
    fix sz
    assume "fst (run_state (overlay_fs_read_file E Main_db (Some ?q) 1 (Some (None, z))) s) = (-1, Some (None, sz))"
    then have 0: "x = (-1, Some (None, sz))" using x by simp
    then have "r = Some (static_answer ?q None)" using run by (simp add: static_answer_def)
    then show ?thesis using run sound full 0
      by (intro exI [of _ None]) (auto split: if_splits)
  qed
qed

text \<open>
  C16. A request for a static file "/name" is always answered: 404, or 200 with exactly the bytes
  of the last version of the file whose path is the name, cut after 511 characters, whatever
  calls of SQLite and \<open>malloc\<close> fail; where none fails, 404 exactly when there is no version. The
  200 message splits into its five head lines, with the MIME type of the extension and the
  length of the body, and the body. The tables stay as they were.
\<close>

theorem static_file_served:
  assumes "wf (tabs s)" "calm E s" "nul_free p" "p \<noteq> []" "local_uri info = Some (CHR ''/'' # p)"
    and "run_state (static_handler E Main_db (Some info) z) s = (r, s')"
  shows "\<exists>f. r = Some (static_answer (take 511 p) f) \<and>
    (f = None \<or> history (tabs s) (take 511 p) \<noteq> [] \<and> f = Some (last (history (tabs s) (take 511 p)))) \<and>
    (healthy E s \<longrightarrow> (f = None \<longleftrightarrow> history (tabs s) (take 511 p) = [])) \<and>
    (\<forall>d. f = Some d \<longrightarrow> (\<exists>head. static_answer (take 511 p) f = (200, Http_Ok head d) \<and>
       split_head (head @ map char_of_byte d) = Some (ok_lines (take 511 p) d, map char_of_byte d))) \<and>
    tabs s' = tabs s"
  by (rule static_file_answer [OF assms])

definition get_request :: "string \<Rightarrow> mg_request_info" where
  "get_request uri = \<lparr>request_method = Some ''GET'', local_uri = Some uri, query_string = None,
     http_headers = [], content_length = -1\<rparr>"

theorem static_file_served_witness:
  "\<exists>s'. run_state (static_handler quiet_env Main_db (Some (get_request ''/static/none.css'')) 0) fresh_conn =
     (Some (404, Http_Error 404), s')"
proof -
  obtain r s' where run: "run_state (static_handler quiet_env Main_db (Some (get_request ''/static/none.css'')) 0) fresh_conn = (r, s')"
    by (rule prod.exhaust)
  have pre: "wf (tabs fresh_conn)" "calm quiet_env fresh_conn" "nul_free ''static/none.css''"
    "''static/none.css'' \<noteq> []" "local_uri (get_request ''/static/none.css'') = Some (CHR ''/'' # ''static/none.css'')"
    by (simp_all add: nul_free_def get_request_def calm_def)
  have "healthy quiet_env fresh_conn" "history (tabs fresh_conn) (take 511 ''static/none.css'') = []"
    by simp_all
  with static_file_served [OF pre run] have "r = Some (404, Http_Error 404)"
    by (auto simp: static_answer_def)
  with run show ?thesis by blast
qed

section \<open>From the packer to the browser\<close>

text \<open>
  CivetWeb chooses the handler of a request; it is a parameter: from the registered patterns
  with their handlers, in order, and the URI to a handler. What the code relies on is that a
  pattern that ends in \<open>**\<close> gets every URI that begins with the text before it, unless an
  earlier such pattern matches too or another handler is registered for the URI or a part of
  its path literally.
\<close>

type_synonym router = "(string \<times> handler_fun) list \<Rightarrow> string \<Rightarrow> handler_fun option"

definition wildcard_matches :: "string \<Rightarrow> string \<Rightarrow> bool" where
  "wildcard_matches pat uri \<longleftrightarrow> 2 \<le> length pat \<and> drop (length pat - 2) pat = ''**'' \<and>
     take (length pat - 2) uri = take (length pat - 2) pat"

definition routes_wildcards :: "router \<Rightarrow> bool" where
  "routes_wildcards route \<longleftrightarrow> (\<forall>before pat h after uri.
     wildcard_matches pat uri \<longrightarrow> (\<forall>x \<in> set before. \<not> wildcard_matches (fst x) uri) \<longrightarrow>
     (\<forall>x \<in> set (before @ after). snd x \<noteq> h \<longrightarrow> take (length (fst x)) uri \<noteq> fst x) \<longrightarrow>
     route (before @ (pat, h) # after) uri = Some h)"

lemma routes_wildcardsD:
  assumes "routes_wildcards route" "wildcard_matches pat uri" "\<forall>x \<in> set before. \<not> wildcard_matches (fst x) uri"
    and "\<forall>x \<in> set (before @ after). snd x \<noteq> h \<longrightarrow> take (length (fst x)) uri \<noteq> fst x"
  shows "route (before @ (pat, h) # after) uri = Some h"
  using assms unfolding routes_wildcards_def by blast

lemma static_route:
  assumes "routes_wildcards route" "hbf_server_start started (Some sv) = (0, Some server)"
  shows "\<exists>hs. mg_ctx server = Some hs \<and> route hs (''/static/'' @ name) = Some Static_handler"
proof -
  let ?uri = "''/static/'' @ name"
  have hs: "mg_ctx server = Some ([(''/health'', Health_handler)] @ (''/static/**'', Static_handler) #
      [(''**'', Qjs_request_handler)])"
    using assms(2) by (auto simp: hbf_server_start_def Let_def split: if_splits)
  have "route ([(''/health'', Health_handler)] @ (''/static/**'', Static_handler) # [(''**'', Qjs_request_handler)]) ?uri =
      Some Static_handler"
    by (rule routes_wildcardsD [OF assms(1)]) (auto simp: wildcard_matches_def)
  with hs show ?thesis by blast
qed

text \<open>
  C3. From the packer to the browser: after the migration of a bundle that \<open>bundle_pack\<close> made of
  files with different names, a request to the started server for "/" and the name of a file
  under "static/", of up to 511 characters, goes to the static file handler, by the patterns
  \<open>hbf_server_start\<close> registers, and is answered with 200, the MIME type, the length and exactly
  the bytes of the file. Files outside "static/" are not served this way.
\<close>

theorem packed_file_over_http:
  assumes "\<forall>e \<in> set (entries b). wf_entry e" "count b < 2 ^ 32" "packed_size (entries b) < 2 ^ 64"
    and "distinct (map e_path (entries b))"
    and "run_state (bundle_pack PE b) k = (Some (packed, n), k')"
    and "unz (10 * length z) z = Some packed" "z \<noteq> []" "bounded_uncompress unz"
    and "10 * length z < 2 ^ 31" "10 * length z \<le> max_len E"
    and "healthy E s" "saved s = None" "wf (tabs s)" "room (10 * length z) (tabs s)"
    and "\<not> select_migration (compute_bundle_id ctx z) (tabs s)"
    and e: "e \<in> set (entries b)" "e_path e = ''static/'' @ name" "length (e_path e) \<le> 511"
    and uri: "local_uri info = Some (CHR ''/'' # e_path e)"
    and server: "routes_wildcards route" "hbf_server_start started (Some sv) = (0, Some server)"
  shows "(\<exists>hs. mg_ctx server = Some hs \<and> route hs (CHR ''/'' # e_path e) = Some Static_handler) \<and>
    (\<exists>s' head. run_state (overlay_fs_migrate_assets E unz ctx Main_db (Some z) (length z)) s = (Some MIGRATE_OK, s') \<and>
    fst (run_state (static_handler E Main_db (Some info) z0) s') = Some (200, Http_Ok head (e_data e)) \<and>
    split_head (head @ map char_of_byte (e_data e)) =
      Some (ok_lines (e_path e) (e_data e), map char_of_byte (e_data e)))"
proof -
  obtain s' where s': "run_state (overlay_fs_migrate_assets E unz ctx Main_db (Some z) (length z)) s = (Some MIGRATE_OK, s')"
    "wf (tabs s')" "healthy E s'" "history (tabs s') (e_path e) = history (tabs s) (e_path e) @ [e_data e]"
    using packed_files_installed [OF assms(1-15)] e(1) by blast
  obtain r s'' where run: "run_state (static_handler E Main_db (Some info) z0) s' = (r, s'')"
    by (rule prod.exhaust)
  have "nul_free (e_path e)" using assms(1) e(1) by (simp add: wf_entry_def)
  moreover have "e_path e \<noteq> []" by (simp add: e(2))
  ultimately obtain f where
    f: "r = Some (static_answer (e_path e) f)" "f = Some (e_data e)"
    using static_file_answer [OF s'(2) healthyD(2) [OF s'(3)] _ _ uri run] s'(3,4) e(3) by auto
  have "split_head (http_head (ok_lines (e_path e) (e_data e)) @ map char_of_byte (e_data e)) =
      Some (ok_lines (e_path e) (e_data e), map char_of_byte (e_data e))"
    by (rule split_http_head [OF ok_lines_free])
  with s'(1) run f static_route [OF server, of name] show ?thesis by (auto simp: static_answer_def e(2))
qed

text \<open>A router that takes the first pattern that matches.\<close>

definition first_match :: router where
  "first_match hs uri = map_option snd (find (\<lambda>(q, g). wildcard_matches q uri \<or> q = uri) hs)"

lemma first_match_routes: "routes_wildcards first_match"
  unfolding routes_wildcards_def
proof (intro allI impI)
  fix before after :: "(string \<times> handler_fun) list" and pat uri h
  assume pat: "wildcard_matches pat uri" and b: "\<forall>x \<in> set before. \<not> wildcard_matches (fst x) uri"
    and o: "\<forall>x \<in> set (before @ after). snd x \<noteq> h \<longrightarrow> take (length (fst x)) uri \<noteq> fst x"
  have "first_match (bs @ (pat, h) # after) uri = Some h" if "set bs \<subseteq> set before" for bs
    using that
  proof (induction bs)
    case Nil
    show ?case using pat by (simp add: first_match_def)
  next
    case (Cons x bs)
    then have "\<not> wildcard_matches (fst x) uri" "fst x = uri \<longrightarrow> snd x = h" using b o by auto
    then show ?case using Cons by (cases x) (auto simp: first_match_def)
  qed
  then show "first_match (before @ (pat, h) # after) uri = Some h" by simp
qed

definition started_server :: hbf_server where
  "started_server = \<lparr>server_port = 5309, db = Main_db, mg_ctx = Some
     [(''/health'', Health_handler), (''/static/**'', Static_handler), (''**'', Qjs_request_handler)]\<rparr>"

lemma started_server: "hbf_server_start (\<lambda>_. True) (Some (started_server\<lparr>mg_ctx := None\<rparr>)) = (0, Some started_server)"
  by (simp add: hbf_server_start_def started_server_def Let_def)

theorem packed_file_over_http_witness:
  "\<exists>z s' head hs. run_state (overlay_fs_migrate_assets quiet_env stored some_ctx Main_db (Some z) (length z)) fresh_conn =
      (Some MIGRATE_OK, s') \<and> mg_ctx started_server = Some hs \<and>
    first_match hs ''/static/a.js'' = Some Static_handler \<and>
    fst (run_state (static_handler quiet_env Main_db (Some (get_request ''/static/a.js'')) 0) s') =
      Some (200, Http_Ok head [7, 8])"
proof -
  let ?e = "sample_entry ''static/a.js'' [7, 8]"
  let ?b = "\<lparr>entries = [?e], capacity = 1\<rparr>"
  obtain packed n k' where run: "run_state (bundle_pack sample_env ?b) 0 = (Some (packed, n), k')"
    by (simp add: bundle_pack_def pk_malloc_def sample_env_def Let_def)
  have len: "length packed = 25"
    using bundle_pack_Some [OF run] by (simp add: sample_entry_def pack_entry_def name_len_def)
  have ne: "packed \<noteq> []" using len by auto
  have "(\<exists>hs. mg_ctx started_server = Some hs \<and> first_match hs (CHR ''/'' # e_path ?e) = Some Static_handler) \<and>
    (\<exists>s' head. run_state (overlay_fs_migrate_assets quiet_env stored some_ctx Main_db (Some packed) (length packed))
        fresh_conn = (Some MIGRATE_OK, s') \<and>
    fst (run_state (static_handler quiet_env Main_db (Some (get_request ''/static/a.js'')) 0) s') =
      Some (200, Http_Ok head (e_data ?e)) \<and>
    split_head (head @ map char_of_byte (e_data ?e)) =
      Some (ok_lines (e_path ?e) (e_data ?e), map char_of_byte (e_data ?e)))"
    by (rule packed_file_over_http [OF _ _ _ _ run _ _ _ _ _ _ _ _ _ _ _ _ _ _ first_match_routes started_server,
          where name = "''a.js''"])
       (simp_all add: stored_def len ne sample_entry_def wf_entry_def nul_free_def max_file_size_def
          packed_size_def select_migration_def get_request_def)
  then show ?thesis by (auto simp: sample_entry_def)
qed

end
