(* ===== verification/Db_Module.thy ===== *)
theory Db_Module
  imports Sqlite_Db
begin

text \<open>
  hbf/qjs/db_module.c: \<open>db.query\<close> and \<open>db.execute\<close>, which run any SQL of the application. The
  meaning of SQL text is SQLite's: \<open>sql_prepare\<close>, \<open>sql_step\<close> and \<open>sql_changes\<close> are arguments,
  on any type of database. Doubles of JavaScript are the type \<open>'d\<close>. A property that a script
  reads or sets (\<open>length\<close>, an element) has a value and no effect.
\<close>

section \<open>Values\<close>

text \<open>\<open>Js_other\<close>: objects, symbols and the exception a getter ended with.\<close>

datatype 'd js_value = Js_undefined | Js_null | Js_bool bool | Js_number 'd | Js_string string
  | Js_array "'d js_value list" | Js_other

datatype 'd sql_value = Sql_integer int | Sql_float 'd | Sql_text string | Sql_null | Sql_blob bytes

type_synonym 'd bindings = "nat \<Rightarrow> 'd sql_value"

record ('d, 'st, 'db) sql_engine =
  sql_prepare :: "'db \<Rightarrow> string \<Rightarrow> 'st option"
  sql_step :: "'st \<Rightarrow> 'd bindings \<Rightarrow> nat \<Rightarrow> 'db \<Rightarrow> (string \<times> 'd sql_value) list step \<times> 'db"
  sql_changes :: "'db \<Rightarrow> int"
  errmsg :: "'db \<Rightarrow> string"
  to_cstring :: "'d js_value \<Rightarrow> string option"
  of_int64 :: "int \<Rightarrow> 'd"

datatype 'd db_result = Db_throw string | Db_rows "(string \<rightharpoonup> 'd js_value) list" | Db_changes int

section \<open>Parameters\<close>

text \<open>The body of the loop for the parameter at index \<open>i\<close>, which SQLite counts from 1. What is
  not bound stays NULL. \<open>JS_ToCString\<close> and \<open>strlen\<close> end the text at its first NUL.\<close>

definition bind_one :: "('d, 'st, 'db) sql_engine \<Rightarrow> nat \<Rightarrow> 'd js_value \<Rightarrow> 'd bindings \<Rightarrow> 'd bindings" where
  "bind_one S i v b =
     (case v of
        Js_number num \<Rightarrow> b(i + 1 := Sql_float num)
      | Js_string s \<Rightarrow> b(i + 1 := (case to_cstring S v of None \<Rightarrow> Sql_null | Some t \<Rightarrow> Sql_text (c_string t)))
      | Js_null \<Rightarrow> b(i + 1 := Sql_null)
      | Js_undefined \<Rightarrow> b(i + 1 := Sql_null)
      | _ \<Rightarrow> b)"

fun bind_loop :: "('d, 'st, 'db) sql_engine \<Rightarrow> nat \<Rightarrow> 'd js_value list \<Rightarrow> 'd bindings \<Rightarrow> 'd bindings" where
  "bind_loop S i [] b = b"
| "bind_loop S i (v # vs) b = bind_loop S (i + 1) vs (bind_one S i v b)"

text \<open>The loop counter is an \<open>int\<close>: with 2^31 parameters or more it overflows.\<close>

definition bind_params :: "('d, 'st, 'db) sql_engine \<Rightarrow> 'd js_value \<Rightarrow> 'd bindings option" where
  "bind_params S params =
     (case params of
        Js_array vs \<Rightarrow> if length vs < 2 ^ 31 then Some (bind_loop S 0 vs (\<lambda>_. Sql_null)) else None
      | _ \<Rightarrow> Some (\<lambda>_. Sql_null))"

section \<open>db.query\<close>

definition column_value :: "('d, 'st, 'db) sql_engine \<Rightarrow> 'd sql_value \<Rightarrow> 'd js_value" where
  "column_value S v =
     (case v of
        Sql_integer i \<Rightarrow> Js_number (of_int64 S i)
      | Sql_float d \<Rightarrow> Js_number d
      | Sql_text t \<Rightarrow> Js_string (c_string t)
      | _ \<Rightarrow> Js_null)"

fun set_columns :: "('d, 'st, 'db) sql_engine \<Rightarrow> (string \<times> 'd sql_value) list \<Rightarrow>
    (string \<rightharpoonup> 'd js_value) \<Rightarrow> (string \<rightharpoonup> 'd js_value)" where
  "set_columns S [] obj = obj"
| "set_columns S ((col, v) # cs) obj = set_columns S cs (obj(col \<mapsto> column_value S v))"

text \<open>The loop over the rows: \<open>None\<close> when the statement never stops giving rows.\<close>

partial_function (option) collect_rows ::
    "('d, 'st, 'db) sql_engine \<Rightarrow> 'st \<Rightarrow> 'd bindings \<Rightarrow> nat \<Rightarrow> (string \<rightharpoonup> 'd js_value) list \<Rightarrow> 'db \<Rightarrow>
     ((string \<rightharpoonup> 'd js_value) list \<times> 'db) option" where
  "collect_rows S st b n result d =
     (case sql_step S st b n d of
        (Step_Row r, d') \<Rightarrow> collect_rows S st b (n + 1) (result @ [set_columns S r Map.empty]) d'
      | (_, d') \<Rightarrow> Some (result, d'))"

text \<open>The outer \<open>None\<close>: the call does not return, or its behaviour is undefined.\<close>

definition js_db_query ::
    "('d, 'st, 'db) sql_engine \<Rightarrow> 'd js_value list \<Rightarrow> 'db \<Rightarrow> ('d db_result \<times> 'db) option" where
  "js_db_query S argv d =
     (case argv of
        [] \<Rightarrow> Some (Db_throw ''db.query: missing SQL argument'', d)
      | a # rest \<Rightarrow>
          (case to_cstring S a of
             None \<Rightarrow> Some (Db_throw ''db.query: invalid SQL'', d)
           | Some sql \<Rightarrow>
               let params = (case rest of [] \<Rightarrow> Js_undefined | p # _ \<Rightarrow> p)
               in (case sql_prepare S d (c_string sql) of
                     None \<Rightarrow> Some (Db_throw (''db.query: prepare failed: '' @ errmsg S d), d)
                   | Some stmt \<Rightarrow>
                       (case bind_params S params of
                          None \<Rightarrow> None
                        | Some b \<Rightarrow>
                            (case collect_rows S stmt b 0 [] d of
                               None \<Rightarrow> None
                             | Some (result, d') \<Rightarrow> Some (Db_rows result, d'))))))"

section \<open>db.execute\<close>

definition js_db_execute ::
    "('d, 'st, 'db) sql_engine \<Rightarrow> 'd js_value list \<Rightarrow> 'db \<Rightarrow> ('d db_result \<times> 'db) option" where
  "js_db_execute S argv d =
     (case argv of
        [] \<Rightarrow> Some (Db_throw ''db.execute: missing SQL argument'', d)
      | a # rest \<Rightarrow>
          (case to_cstring S a of
             None \<Rightarrow> Some (Db_throw ''db.execute: invalid SQL'', d)
           | Some sql \<Rightarrow>
               let params = (case rest of [] \<Rightarrow> Js_undefined | p # _ \<Rightarrow> p)
               in (case sql_prepare S d (c_string sql) of
                     None \<Rightarrow> Some (Db_throw (''db.execute: prepare failed: '' @ errmsg S d), d)
                   | Some stmt \<Rightarrow>
                       (case bind_params S params of
                          None \<Rightarrow> None
                        | Some b \<Rightarrow>
                            (case sql_step S stmt b 0 d of
                               (r, d') \<Rightarrow>
                                 if r = Step_Error
                                 then Some (Db_throw (''db.execute: step failed: '' @ errmsg S d'), d')
                                 else Some (Db_changes (sql_changes S d'), d'))))))"

section \<open>What they return\<close>

text \<open>The value bound to parameter \<open>i\<close>, without the loop.\<close>

definition bound :: "('d, 'st, 'db) sql_engine \<Rightarrow> 'd js_value list \<Rightarrow> nat \<Rightarrow> 'd sql_value" where
  "bound S vs i =
     (if 1 \<le> i \<and> i \<le> length vs then
        (case vs ! (i - 1) of
           Js_number num \<Rightarrow> Sql_float num
         | Js_string s \<Rightarrow> (case to_cstring S (Js_string s) of None \<Rightarrow> Sql_null | Some t \<Rightarrow> Sql_text (c_string t))
         | _ \<Rightarrow> Sql_null)
      else Sql_null)"

lemma bind_loop_bound:
  "(\<And>j. k < j \<Longrightarrow> b j = Sql_null) \<Longrightarrow>
   bind_loop S k vs b i = (if k < i \<and> i \<le> k + length vs then bound S vs (i - k) else b i)"
proof (induction vs arbitrary: k b)
  case (Cons v vs)
  have "bind_loop S (k + 1) vs (bind_one S k v b) i =
      (if k + 1 < i \<and> i \<le> k + 1 + length vs then bound S vs (i - (k + 1)) else bind_one S k v b i)"
    using Cons.prems by (intro Cons.IH) (auto simp: bind_one_def split: js_value.split)
  moreover have "bind_one S k v b i = bound S (v # vs) 1" if "i = k + 1"
    using that Cons.prems [of i] by (auto simp: bind_one_def bound_def split: js_value.split option.split)
  moreover have "bind_one S k v b i = b i" if "i \<noteq> k + 1"
    using that by (auto simp: bind_one_def split: js_value.split)
  moreover have "bound S (v # vs) (i - k) = bound S vs (i - (k + 1))" if "k + 1 < i"
    using that by (auto simp: bound_def nth_Cons' less_diff_conv)
  moreover have "i - k = 1" if "i = k + 1" using that by simp
  ultimately show ?case by (cases "i = k + 1"; cases "k + 1 < i") auto
qed auto

text \<open>The rows a statement gives from its step \<open>n\<close> on, how it stops and the database then.\<close>

inductive gives_rows ::
    "('d, 'st, 'db) sql_engine \<Rightarrow> 'st \<Rightarrow> 'd bindings \<Rightarrow> nat \<Rightarrow> 'db \<Rightarrow> (string \<times> 'd sql_value) list list \<Rightarrow>
     (string \<times> 'd sql_value) list step \<Rightarrow> 'db \<Rightarrow> bool"
  for S st b where
  stops: "sql_step S st b n d = (r, d') \<Longrightarrow> (\<And>row. r \<noteq> Step_Row row) \<Longrightarrow> gives_rows S st b n d [] r d'"
| row: "sql_step S st b n d = (Step_Row row, d1) \<Longrightarrow> gives_rows S st b (n + 1) d1 rows r d' \<Longrightarrow>
     gives_rows S st b n d (row # rows) r d'"

lemma set_columns_map_of: "set_columns S cs m = m ++ map_of (rev (map (\<lambda>(c, v). (c, column_value S v)) cs))"
proof (induction cs arbitrary: m)
  case (Cons c cs)
  obtain col v where c: "c = (col, v)" by (rule prod.exhaust)
  show ?case
    by (simp only: c set_columns.simps Cons.IH) (auto simp: map_add_def fun_eq_iff split: option.split)
qed simp

lemma collect_rows_gives:
  "gives_rows S st b n d rows r d' \<Longrightarrow>
     collect_rows S st b n result d = Some (result @ map (\<lambda>row. set_columns S row Map.empty) rows, d')"
proof (induction arbitrary: result rule: gives_rows.induct)
  case (stops n d r d')
  then show ?case by (subst collect_rows.simps) (cases r, auto)
next
  case (row n d row d1 rows r d')
  then show ?case by (subst collect_rows.simps) simp
qed

lemma collect_rows_returns:
  assumes "collect_rows S st b n result d = Some y"
  shows "\<exists>rows r. gives_rows S st b n d rows r (snd y)"
  using assms
proof (rule collect_rows.raw_induct [rotated])
  fix f S st b n result d y
  assume IH: "\<And>S st b n result d y. f S st b n result d = Some y \<Longrightarrow> \<exists>rows r. gives_rows S st b n d rows r (snd y)"
    and body: "(case sql_step S st b n d of
        (Step_Row r, d') \<Rightarrow> f S st b (n + 1) (result @ [set_columns S r Map.empty]) d'
      | (_, d') \<Rightarrow> Some (result, d')) = Some y"
  obtain r d1 where r: "sql_step S st b n d = (r, d1)" by (rule prod.exhaust)
  show "\<exists>rows r. gives_rows S st b n d rows r (snd y)"
  proof (cases r)
    case (Step_Row row)
    with body r have "f S st b (n + 1) (result @ [set_columns S row Map.empty]) d1 = Some y" by simp
    with IH obtain rows x where "gives_rows S st b (n + 1) d1 rows x (snd y)" by blast
    with r Step_Row show ?thesis by (blast intro: gives_rows.row)
  next
    case Step_Done
    with body r show ?thesis by (auto intro!: exI gives_rows.stops)
  next
    case Step_Error
    with body r show ?thesis by (auto intro!: exI gives_rows.stops)
  qed
qed

text \<open>An object with the columns of a row; the last column of a name wins.\<close>

definition row_object :: "('d, 'st, 'db) sql_engine \<Rightarrow> (string \<times> 'd sql_value) list \<Rightarrow> (string \<rightharpoonup> 'd js_value)" where
  "row_object S cs = map_of (rev (map (\<lambda>(c, v). (c, column_value S v)) cs))"

text \<open>
  C17. \<open>db.query(sql, [p1, ...])\<close> on a statement SQLite accepts binds each number, string, null
  and undefined to its parameter and NULL to every other (a boolean or an object too), and
  returns exactly when the statement stops giving rows. It then returns one object per row, in
  order, blobs as null, and it never throws: an error in the middle of the rows looks like
  their end.
\<close>

theorem db_query_rows:
  assumes "to_cstring S a = Some sql" "sql_prepare S d (c_string sql) = Some st" "length vs < 2 ^ 31"
  shows "(js_db_query S [a, Js_array vs] d = Some (x, d')) \<longleftrightarrow>
    (\<exists>rows r. gives_rows S st (bound S vs) 0 d rows r d' \<and> x = Db_rows (map (row_object S) rows))"
proof -
  have "bind_loop S 0 vs (\<lambda>_. Sql_null) = bound S vs"
    by (rule ext) (auto simp: bind_loop_bound bound_def)
  then have q: "js_db_query S [a, Js_array vs] d =
      (case collect_rows S st (bound S vs) 0 [] d of None \<Rightarrow> None | Some (res, d') \<Rightarrow> Some (Db_rows res, d'))"
    using assms by (simp add: js_db_query_def bind_params_def Let_def)
  have obj: "map (\<lambda>row. set_columns S row Map.empty) rows = map (row_object S) rows" for rows
    by (simp add: set_columns_map_of row_object_def)
  show ?thesis
  proof
    assume "js_db_query S [a, Js_array vs] d = Some (x, d')"
    then obtain res where res: "collect_rows S st (bound S vs) 0 [] d = Some (res, d')" "x = Db_rows res"
      unfolding q by (auto split: option.splits)
    from collect_rows_returns [OF res(1)] obtain rows r where g: "gives_rows S st (bound S vs) 0 d rows r d'" by auto
    with collect_rows_gives [OF g, of "[]"] res obj show
      "\<exists>rows r. gives_rows S st (bound S vs) 0 d rows r d' \<and> x = Db_rows (map (row_object S) rows)" by auto
  next
    assume "\<exists>rows r. gives_rows S st (bound S vs) 0 d rows r d' \<and> x = Db_rows (map (row_object S) rows)"
    then obtain rows r where g: "gives_rows S st (bound S vs) 0 d rows r d'" "x = Db_rows (map (row_object S) rows)"
      by blast
    with collect_rows_gives [OF g(1), of "[]"] obj show "js_db_query S [a, Js_array vs] d = Some (x, d')"
      unfolding q by simp
  qed
qed

text \<open>A statement that gives one row and then fails.\<close>

definition failing_engine :: "(int, unit, unit) sql_engine" where
  "failing_engine = \<lparr>sql_prepare = \<lambda>_ _. Some (),
     sql_step = \<lambda>_ b n d. (if n = 0 then Step_Row [(''x'', b 1), (''y'', b 2)] else Step_Error, d),
     sql_changes = \<lambda>_. 0, errmsg = \<lambda>_. ''disk I/O error'',
     to_cstring = \<lambda>v. case v of Js_string s \<Rightarrow> Some s | _ \<Rightarrow> Some ''?'', of_int64 = \<lambda>i. i\<rparr>"

theorem db_query_rows_witness:
  "js_db_query failing_engine [Js_string ''SELECT ?1, ?2'', Js_array [Js_number 5, Js_bool True]] () =
     Some (Db_rows [[''y'' \<mapsto> Js_null, ''x'' \<mapsto> Js_number 5]], ())"
proof -
  let ?vs = "[Js_number 5, Js_bool True] :: int js_value list"
  have "gives_rows failing_engine () (bound failing_engine ?vs) 0 ()
      [[(''x'', Sql_float 5), (''y'', Sql_null)]] Step_Error ()"
    by (rule gives_rows.row [where ?d1.0 = "()"])
      (auto intro!: gives_rows.stops simp: failing_engine_def bound_def)
  then have "\<exists>rows r. gives_rows failing_engine () (bound failing_engine ?vs) 0 () rows r () \<and>
      Db_rows [[''y'' \<mapsto> Js_null, ''x'' \<mapsto> Js_number 5]] = Db_rows (map (row_object failing_engine) rows)"
    by (intro exI conjI) (auto simp: row_object_def column_value_def fun_eq_iff)
  then show ?thesis
    by (subst db_query_rows [of _ _ "''SELECT ?1, ?2''" _ "()"]) (auto simp: failing_engine_def)
qed

end
