(* ===== verification/Shell_Main.thy ===== *)
theory Shell_Main
  imports Db_Init Config Engine Server
begin

text \<open>
  hbf/shell/main.c: the order in which the parts start and stop. The process holds the state of
  every part and counts what is open: servers, listening sockets, and, in the state of the
  database, the handles that \<open>sqlite3_open\<close> and \<open>sqlite3_close\<close> count. When a signal sets \<open>running\<close> to 0 is an argument.
\<close>

record process =
  log :: log_state
  qjs :: qjs_config
  conn_state :: conn
  overlay_db :: sqlite3_ptr
  servers :: nat
  listening :: nat

record main_env =
  sys :: env
  uncompress :: "nat \<Rightarrow> bytes \<Rightarrow> bytes option"
  sha_ctx :: sha256_ctx
  assets_blob :: bytes
  server_alloc :: bool
  mg_start_ok :: "string \<Rightarrow> bool"
  signalled :: "nat \<Rightarrow> bool"

datatype exit = Exit int | Runs_forever | Undefined_behaviour

section \<open>Stopping\<close>

definition close_db :: "sqlite3_ptr \<Rightarrow> process \<Rightarrow> process" where
  "close_db d p = p\<lparr>conn_state := snd (run_state (hbf_db_close d) (conn_state p))\<rparr>"

definition shutdown_engine :: "process \<Rightarrow> process" where
  "shutdown_engine p = p\<lparr>qjs := hbf_qjs_shutdown (qjs p)\<rparr>"

definition destroy_server :: "hbf_server option \<Rightarrow> process \<Rightarrow> process" where
  "destroy_server server p =
     (let es = hbf_server_destroy server
      in p\<lparr>servers := servers p - count_list es Free_server,
           listening := listening p - count_list es Mg_stop\<rparr>)"

text \<open>The signal handler clears \<open>running\<close>.\<close>

definition signal_handler :: "int \<Rightarrow> bool \<Rightarrow> bool" where
  "signal_handler sig running = False"

text \<open>The main loop ends at the first check of \<open>running\<close> after the signal.\<close>

definition main_loop :: "(nat \<Rightarrow> bool) \<Rightarrow> nat option" where
  "main_loop sig = while_option (\<lambda>k. \<not> sig k) Suc 0"

section \<open>Starting\<close>

definition run_server :: "main_env \<Rightarrow> sqlite3_ptr \<Rightarrow> hbf_server \<Rightarrow> process \<Rightarrow> exit \<times> process" where
  "run_server M d s p =
     (case hbf_server_start (mg_start_ok M) (Some s) of
        (r, server) \<Rightarrow>
          if r \<noteq> 0 then (Exit 1, close_db d (shutdown_engine (destroy_server server p)))
          else let p1 = p\<lparr>listening := listening p + 1\<rparr>
               in (case main_loop (signalled M) of
                     None \<Rightarrow> (Runs_forever, p1)
                   | Some _ \<Rightarrow> (Exit 0, close_db d (shutdown_engine (destroy_server server p1)))))"

definition start_engine :: "main_env \<Rightarrow> int \<Rightarrow> sqlite3_ptr \<Rightarrow> process \<Rightarrow> exit \<times> process" where
  "start_engine M portno d p =
     (case hbf_qjs_init 64 5000 (qjs p) of
        (r, cfg) \<Rightarrow>
          if r \<noteq> 0 then (Exit 1, close_db d (p\<lparr>qjs := cfg\<rparr>))
          else (case hbf_server_create (server_alloc M) portno d of
                  None \<Rightarrow> (Exit 1, close_db d (shutdown_engine (p\<lparr>qjs := cfg\<rparr>)))
                | Some s \<Rightarrow> run_server M d s (p\<lparr>qjs := cfg, servers := servers p + 1\<rparr>)))"

definition hbf_main :: "main_env \<Rightarrow> string list \<Rightarrow> hbf_config \<Rightarrow> process \<Rightarrow> exit \<times> process" where
  "hbf_main M argv config p =
     (case hbf_config_parse argv (Some config) of
        (_, None) \<Rightarrow> (Undefined_behaviour, p)
      | (r, Some c) \<Rightarrow>
          if r \<noteq> 0 then (Exit (if r = 1 then 0 else 1), p)
          else (case hbf_log_parse_level (Some (log_level c)) of
                  None \<Rightarrow> (Undefined_behaviour, p)
                | Some l \<Rightarrow>
                    let p1 = p\<lparr>log := hbf_log_init l (log p)\<rparr>
                    in (case run_state (hbf_db_init (sys M) (uncompress M) (sha_ctx M) (assets_blob M)
                            (overlay_db p1) (inmem c \<noteq> 0) True) (conn_state p1) of
                          (None, _) \<Rightarrow> (Undefined_behaviour, p1)
                        | (Some res, s) \<Rightarrow>
                            let p2 = p1\<lparr>conn_state := s, overlay_db := global res\<rparr>
                            in if rc res \<noteq> 0 then (Exit 1, p2)
                               else start_engine M (port c) (handle res) p2)))"

section \<open>What is left when the program exits\<close>

definition nothing_open :: "process \<Rightarrow> bool" where
  "nothing_open p \<longleftrightarrow> open_count (conn_state p) = 0 \<and> servers p = 0 \<and> listening p = 0 \<and> \<not> initialized (qjs p)"

lemma main_loop_iff: "(\<exists>k. main_loop sig = Some k) \<longleftrightarrow> (\<exists>k. sig k)"
proof -
  have it: "(Suc ^^ k) 0 = k" for k by (induction k) auto
  show ?thesis by (simp add: main_loop_def while_option_def it)
qed

lemma run_server_exits:
  assumes "open_count (conn_state p) = 1" "servers p = 1" "listening p = 0" "mg_ctx s = None" "run_server M Main_db s p = (x, p')"
  shows "(\<exists>code. x = Exit code \<and> code \<in> {0, 1} \<and> nothing_open p' \<and> (code = 0 \<longrightarrow> (\<exists>k. signalled M k))) \<or>
    x = Runs_forever \<and> \<not> (\<exists>k. signalled M k)"
proof (cases "mg_start_ok M (snprintf_s 16 (decimal_int (server_port s)))")
  case False
  then show ?thesis
    using assms by (auto simp: run_server_def hbf_server_start_def Let_def nothing_open_def close_db_def hbf_db_close_def
      shutdown_engine_def destroy_server_def hbf_server_destroy_def hbf_qjs_shutdown_def split: if_splits)
next
  case True
  show ?thesis
  proof (cases "main_loop (signalled M)")
    case None
    then have "\<not> (\<exists>k. signalled M k)" using main_loop_iff [of "signalled M"] by auto
    with True None assms(5) show ?thesis by (auto simp: run_server_def hbf_server_start_def Let_def)
  next
    case (Some k)
    then have "\<exists>k. signalled M k" using main_loop_iff by blast
    with True Some assms show ?thesis
      by (auto simp: run_server_def hbf_server_start_def Let_def nothing_open_def close_db_def hbf_db_close_def
        shutdown_engine_def destroy_server_def hbf_server_destroy_def hbf_server_stop_def
        hbf_qjs_shutdown_def split: if_splits)
  qed
qed

lemma start_engine_exits:
  assumes "open_count (conn_state p) = 1" "servers p = 0" "listening p = 0" "\<not> initialized (qjs p)"
    and "start_engine M n Main_db p = (x, p')"
  shows "(\<exists>code. x = Exit code \<and> code \<in> {0, 1} \<and> nothing_open p' \<and> (code = 0 \<longrightarrow> (\<exists>k. signalled M k))) \<or>
    x = Runs_forever \<and> \<not> (\<exists>k. signalled M k)"
proof (cases "server_alloc M")
  case False
  then show ?thesis
    using assms by (auto simp: start_engine_def hbf_qjs_init_def hbf_server_create_def nothing_open_def close_db_def hbf_db_close_def
      shutdown_engine_def hbf_qjs_shutdown_def)
next
  case True
  let ?p = "p\<lparr>qjs := snd (hbf_qjs_init 64 5000 (qjs p)), servers := 1\<rparr>"
  have "run_server M Main_db \<lparr>server_port = n, db = Main_db, mg_ctx = None\<rparr> ?p = (x, p')"
    using True assms by (simp add: start_engine_def hbf_qjs_init_def hbf_server_create_def)
  from run_server_exits [OF _ _ _ _ this] assms(1,3) show ?thesis by simp
qed

text \<open>
  C15. The program never runs into undefined behaviour on its way up, and whichever part fails to
  start, or when the signal comes, it closes and frees everything it had opened, in the state
  of each part, before it exits: no database handle, server, socket or engine is left. It exits
  with 0 only after \<open>--help\<close> or a signal, otherwise with 1, and it runs for ever only when no
  signal ever comes.
\<close>

theorem main_cleans_up:
  assumes "\<forall>a \<in> set argv. nul_free a" "length (log_level config) = 16"
    and "10 * length (assets_blob M) < 2 ^ 31" "bounded_uncompress (uncompress M)"
    and "saved (conn_state p) = None" "openable (tabs (conn_state p))"
    and "room (10 * length (assets_blob M)) (tabs (conn_state p))"
    and "nothing_open p" "hbf_main M argv config p = (x, p')"
  shows "(\<exists>code. x = Exit code \<and> code \<in> {0, 1} \<and> nothing_open p' \<and>
      (code = 0 \<longrightarrow> fst (hbf_config_parse argv (Some config)) = 1 \<or> (\<exists>k. signalled M k))) \<or>
    x = Runs_forever \<and> \<not> (\<exists>k. signalled M k)"
proof -
  obtain r c where "parse_options (tl argv) (config_defaults config) = (r, c)" by (rule prod.exhaust)
  then have c: "hbf_config_parse argv (Some config) = (r, Some c)" by (simp add: hbf_config_parse_def)
  note good = config_parse_result [OF assms(1,2) c]
  show ?thesis
  proof (cases "r = 0")
    case False
    then show ?thesis using assms(8,9) c by (cases "r = 1") (auto simp: hbf_main_def)
  next
    case True
    obtain l where l: "hbf_log_parse_level (Some (log_level c)) = Some l" using good by auto
    obtain y s where run: "run_state (hbf_db_init (sys M) (uncompress M) (sha_ctx M) (assets_blob M)
        (overlay_db p) (inmem c \<noteq> 0) True) (conn_state p) = (y, s)" by (rule prod.exhaust)
    obtain res where res: "y = Some res" "rc res = 0 \<and> handle res = Main_db \<and> open_count s = open_count (conn_state p) + 1 \<or>
        rc res = -1 \<and> open_count s = open_count (conn_state p)"
      using db_init_result [OF assms(5) _ assms(3,4) run] assms(6,7) by blast
    let ?p = "p\<lparr>log := hbf_log_init l (log p), conn_state := s, overlay_db := global res\<rparr>"
    have main: "hbf_main M argv config p =
        (if rc res \<noteq> 0 then (Exit 1, ?p) else start_engine M (port c) (handle res) ?p)"
      using True c l run res(1) by (simp add: hbf_main_def Let_def)
    from res(2) show ?thesis
    proof
      assume ok: "rc res = 0 \<and> handle res = Main_db \<and> open_count s = open_count (conn_state p) + 1"
      with main assms(9) have "start_engine M (port c) Main_db ?p = (x, p')" by simp
      from start_engine_exits [OF _ _ _ _ this] ok assms(8) show ?thesis by (auto simp: nothing_open_def)
    next
      assume "rc res = -1 \<and> open_count s = open_count (conn_state p)"
      with main assms(8,9) show ?thesis by (auto simp: nothing_open_def)
    qed
  qed
qed

text \<open>A start in memory that is stopped after three seconds.\<close>

definition sample_main :: main_env where
  "sample_main = \<lparr>sys = quiet_env, uncompress = stored, sha_ctx = some_ctx, assets_blob = one_file_bundle,
     server_alloc = True, mg_start_ok = \<lambda>s. s = ''5309'', signalled = \<lambda>k. k = 3\<rparr>"

definition sample_process :: process where
  "sample_process = \<lparr>log = log_start, qjs = g_qjs_config, conn_state = fresh_conn, overlay_db = Null_db,
     servers = 0, listening = 0\<rparr>"

theorem main_cleans_up_witness:
  "\<exists>code p'. hbf_main sample_main [''hbf'', ''--inmem''] garbage_config sample_process = (Exit code, p') \<and>
     nothing_open p'"
proof -
  obtain x p' where run: "hbf_main sample_main [''hbf'', ''--inmem''] garbage_config sample_process = (x, p')"
    by (rule prod.exhaust)
  have "nothing_open sample_process" "\<exists>k. signalled sample_main k"
    by (simp_all add: nothing_open_def sample_process_def g_qjs_config_def sample_main_def)
  with main_cleans_up [OF _ _ _ _ _ _ _ _ run] run show ?thesis
    by (auto simp: sample_main_def sample_process_def garbage_config_def nul_free_def stored_bounded
        wf_openable)
qed

end
