(* ===== verification/Spec2Isabelle.thy ===== *)
theory Spec2Isabelle
  imports Sha256 Dns_Hash Store_Props Bundle_Props Migrate_Props Rollback_Loss Db_Init Response_Props Config
    Module_Loader Console Request Engine_Props Handler_Success Concurrency Server_Props Db_Module
    Shell_Main
begin

text \<open>
  HBF: a web application server in one executable. A build tool (tools/asset_packer.c) packs the
  files of an application into a bundle that is compiled into the server. At start (hbf/shell/main.c)
  the server opens an SQLite database, installs the schema and the bundle in a versioned file
  system (hbf/db/), starts the JavaScript engine (hbf/qjs/) and CivetWeb (hbf/http/). Static files
  are read from the database; every other request loads hbf/server.js from it and calls
  \<open>app.handle(req, res)\<close> in a fresh QuickJS context, under one mutex. The development models the C
  code of these parts and proves what each promises to the next.

  Theories, in the order they build on each other.

  \<^item> \<open>Prelude\<close>: machine integers, byte buffers, C strings, printing and reading of numbers.
    \<open>Cstd\<close>: the functions of the C library the code calls on strings.
  \<^item> \<open>Sha256\<close>, \<open>Dns_Hash\<close>: shell/hash.c and the second copy of SHA-256 in db/overlay_fs.c.
    The streaming code equals FIPS 180-4, which \<open>Fips180\<close> writes down on its own, the constants
    from the roots of the primes; the hash of a name is eight base-36 digits.
  \<^item> \<open>Sqlite_Db\<close>: the tables of overlay_schema.sql, each statement of the C code as a function on
    them, and what a call to SQLite can do: succeed, fail, or fail and roll the open transaction
    back. \<open>env\<close> says which call does what, so every theorem over an arbitrary \<open>env\<close> covers every
    failure. A blob is bound with the length the C code casts to \<open>int\<close>, so a size from 2^31 on is
    truncated as the code truncates it; what SQLite binds for a negative length is a field of
    \<open>env\<close>. The connection counts the handles that opens and closes leave open; a failed open may
    leave one. \<open>Schema\<close>: the schema script run by \<open>sqlite3_exec\<close>.
  \<^item> \<open>Overlay_Fs\<close>: reading and writing in db/overlay_fs.c. \<open>Overlay_Inv\<close>: the well-formedness of the
    tables (keys, version numbers 1, 2, 3, the metadata table kept by a trigger), and the
    abstraction \<open>history\<close>: the contents of a path, oldest first. \<open>Overlay_Spec\<close>: the abstract file
    store as two locales, \<open>version_log\<close> (a write appends, or fails and changes nothing) and
    \<open>version_store\<close> (a reader returns the last version). \<open>Db_Read\<close>: the readers of db/db.c.
    \<open>Tx_Rollback\<close>: runs with and without an open transaction under a rollback by SQLite.
    \<open>Store_Props\<close>: the interpretations of the locales on the code, and their consequences.
  \<^item> \<open>Bundle\<close>, \<open>Bundle_Format\<close>, \<open>Bundle_Props\<close>: tools/asset_packer.c from its arguments to the
    generated C file, a reader of the format, round trips. \<open>C_Reader\<close>: a lexer and a recogniser
    of the C the tool generates, written from the grammar.
  \<^item> \<open>Migrate\<close>, \<open>Migrate_Props\<close>: \<open>overlay_fs_migrate_assets\<close>: atomic, memory safe, idempotent, and
    inverse to the packer; where it gives up. \<open>Rollback_Loss\<close>: the one way it is not atomic, a
    rollback by SQLite itself under the lookup of a new path. \<open>Db_Init\<close>: opening and closing
    databases.
  \<^item> \<open>Log\<close>, \<open>Config\<close>: shell/log.c and shell/config.c.
  \<^item> \<open>Response\<close>, \<open>Response_Props\<close>, \<open>Request\<close>: the objects in qjs/bindings/ a script sees.
    \<open>Module_Loader\<close>, \<open>Console\<close>, \<open>Db_Module\<close>: what else it can call.
  \<^item> \<open>Engine\<close>: qjs/engine.c. The state is a trace of what is acquired and given back; what QuickJS
    answers is an oracle \<open>js_env\<close>. \<open>Js_Trace\<close>: the discipline of such traces and a small logic
    for it. \<open>Engine_Props\<close>: contexts and evaluations.
  \<^item> \<open>Handler\<close>, \<open>Handler_Props\<close>, \<open>Handler_Success\<close>: http/handler.c, every exit of the request
    handler, and the answer when all goes well.
    \<open>Concurrency\<close>: the worker threads as a step relation; the locale \<open>disciplined\<close> turns the
    discipline into mutual exclusion and progress and is interpreted on the handler.
  \<^item> \<open>Server\<close>, \<open>Server_Props\<close>: http/server.c, and a packed file from the tool to the browser.
    \<open>Shell_Main\<close>: shell/main.c.

  Correspondence. Functions, structures and statements keep the names of the C code. A handler or
  loop that is split into several definitions is split at its early exits, back to front. A C
  function that can run into undefined behaviour, or not return, has an option or an own outcome
  for it. State is passed explicitly (\<open>dbm\<close> for the database, \<open>js\<close> for traces). A C string is the
  list of its characters before the NUL; a \<open>char[n]\<close> that may lack one is a list of \<open>n\<close> characters.
  Sizes and lengths are natural numbers where the code cannot overflow them and words where it
  can (SHA-256, the bundle's 32-bit lengths, the 64-bit size of the decompression buffer).

  Bounds. SQLite's 32-bit reading of row ids and version numbers is kept; \<open>room k\<close> says that \<open>k\<close>
  more rows fit. Migrations are shown for bundles whose compressed size times ten is below 2^31 (or
  2^32, or 2^64, as stated). There is no fuel: loops are structural, have a measure, or are
  \<open>while_option\<close> and \<open>partial_function\<close> with \<open>None\<close> for a loop that does not end (the job queue,
  the rows of a statement, the main loop), and theorems say when they end.

  Not modelled: SQLite, QuickJS, CivetWeb and zlib, which are not part of the code and appear as
  arguments with their documented behaviour as hypotheses (the pattern CivetWeb matches a request
  with is such an argument); the file system of the packer, of which the results of opening,
  seeking and reading, and what a file holds after unchecked writes, are arguments; the text of
  log messages other than the console's; the JavaScript and HTML of the
  applications; tests, build files and the schema's text outside the objects it creates.
\<close>

end
